theory Spec2Isabelle
  imports Complex_Main "HOL-Library.Multiset"
begin

section \<open>JavaScript numbers\<close>

text \<open>
  The program computes with JavaScript numbers, which are IEEE 754 doubles. A number is
  modelled as a real, one of the two infinities, or NaN; \<open>Undefined\<close> is the value an
  array read out of range produces at run time (TypeScript still types it as a number).
  The operators of this section compute on finite values exactly. The next section adds
  the rounding of every result to the nearest double and the overflow to an infinity;
  the functions whose names end in \<open>64\<close> are embedded with the rounded operators, and
  the statements that depend on rounding are made about them. The sign of zero is not
  modelled. Division by zero, the infinities and NaN behave as in ECMAScript, and
  \<open>Undefined\<close> is coerced to NaN by every arithmetic operator.
\<close>

datatype number = Fin real | PosInf | NegInf | NaN | Undefined

fun toNumber :: "number \<Rightarrow> number" where
  "toNumber Undefined = NaN"
| "toNumber x = x"

fun js_neg :: "number \<Rightarrow> number" where
  "js_neg (Fin a) = Fin (- a)"
| "js_neg PosInf = NegInf"
| "js_neg NegInf = PosInf"
| "js_neg NaN = NaN"
| "js_neg Undefined = NaN"

fun js_add :: "number \<Rightarrow> number \<Rightarrow> number" where
  "js_add (Fin a) (Fin b) = Fin (a + b)"
| "js_add NaN _ = NaN"
| "js_add _ NaN = NaN"
| "js_add Undefined _ = NaN"
| "js_add _ Undefined = NaN"
| "js_add PosInf NegInf = NaN"
| "js_add NegInf PosInf = NaN"
| "js_add PosInf _ = PosInf"
| "js_add _ PosInf = PosInf"
| "js_add NegInf _ = NegInf"
| "js_add _ NegInf = NegInf"

definition js_sub :: "number \<Rightarrow> number \<Rightarrow> number" where
  "js_sub a b = js_add a (js_neg b)"

fun js_mul :: "number \<Rightarrow> number \<Rightarrow> number" where
  "js_mul (Fin a) (Fin b) = Fin (a * b)"
| "js_mul NaN _ = NaN"
| "js_mul _ NaN = NaN"
| "js_mul Undefined _ = NaN"
| "js_mul _ Undefined = NaN"
| "js_mul PosInf (Fin b) = (if b = 0 then NaN else if 0 < b then PosInf else NegInf)"
| "js_mul NegInf (Fin b) = (if b = 0 then NaN else if 0 < b then NegInf else PosInf)"
| "js_mul (Fin a) PosInf = (if a = 0 then NaN else if 0 < a then PosInf else NegInf)"
| "js_mul (Fin a) NegInf = (if a = 0 then NaN else if 0 < a then NegInf else PosInf)"
| "js_mul PosInf PosInf = PosInf"
| "js_mul NegInf NegInf = PosInf"
| "js_mul PosInf NegInf = NegInf"
| "js_mul NegInf PosInf = NegInf"

fun js_div :: "number \<Rightarrow> number \<Rightarrow> number" where
  "js_div (Fin a) (Fin b) =
     (if b = 0 then (if a = 0 then NaN else if 0 < a then PosInf else NegInf)
      else Fin (a / b))"
| "js_div NaN _ = NaN"
| "js_div _ NaN = NaN"
| "js_div Undefined _ = NaN"
| "js_div _ Undefined = NaN"
| "js_div (Fin a) PosInf = Fin 0"
| "js_div (Fin a) NegInf = Fin 0"
| "js_div PosInf (Fin b) = (if 0 \<le> b then PosInf else NegInf)"
| "js_div NegInf (Fin b) = (if 0 \<le> b then NegInf else PosInf)"
| "js_div PosInf PosInf = NaN"
| "js_div PosInf NegInf = NaN"
| "js_div NegInf PosInf = NaN"
| "js_div NegInf NegInf = NaN"

text \<open>The relational operators: every comparison with NaN (or \<open>Undefined\<close>) is false.\<close>

fun js_lt :: "number \<Rightarrow> number \<Rightarrow> bool" where
  "js_lt (Fin a) (Fin b) = (a < b)"
| "js_lt (Fin a) PosInf = True"
| "js_lt NegInf (Fin b) = True"
| "js_lt NegInf PosInf = True"
| "js_lt _ _ = False"

definition js_gt :: "number \<Rightarrow> number \<Rightarrow> bool" where
  "js_gt a b = js_lt b a"

fun js_le :: "number \<Rightarrow> number \<Rightarrow> bool" where
  "js_le (Fin a) (Fin b) = (a \<le> b)"
| "js_le (Fin a) PosInf = True"
| "js_le NegInf (Fin b) = True"
| "js_le NegInf PosInf = True"
| "js_le PosInf PosInf = True"
| "js_le NegInf NegInf = True"
| "js_le _ _ = False"

definition js_ge :: "number \<Rightarrow> number \<Rightarrow> bool" where
  "js_ge a b = js_le b a"

text \<open>Strict equality \<open>===\<close>: NaN is not equal to itself.\<close>

fun js_eq :: "number \<Rightarrow> number \<Rightarrow> bool" where
  "js_eq NaN _ = False"
| "js_eq _ NaN = False"
| "js_eq a b = (a = b)"

fun js_abs :: "number \<Rightarrow> number" where
  "js_abs (Fin a) = Fin \<bar>a\<bar>"
| "js_abs PosInf = PosInf"
| "js_abs NegInf = PosInf"
| "js_abs NaN = NaN"
| "js_abs Undefined = NaN"

fun js_sqrt :: "number \<Rightarrow> number" where
  "js_sqrt (Fin a) = (if a < 0 then NaN else Fin (sqrt a))"
| "js_sqrt PosInf = PosInf"
| "js_sqrt NegInf = NaN"
| "js_sqrt NaN = NaN"
| "js_sqrt Undefined = NaN"

fun js_ceil :: "number \<Rightarrow> number" where
  "js_ceil (Fin a) = Fin (of_int \<lceil>a\<rceil>)"
| "js_ceil Undefined = NaN"
| "js_ceil x = x"

fun js_floor :: "number \<Rightarrow> number" where
  "js_floor (Fin a) = Fin (of_int \<lfloor>a\<rfloor>)"
| "js_floor Undefined = NaN"
| "js_floor x = x"

fun js_max :: "number \<Rightarrow> number \<Rightarrow> number" where
  "js_max NaN _ = NaN"
| "js_max _ NaN = NaN"
| "js_max Undefined _ = NaN"
| "js_max _ Undefined = NaN"
| "js_max a b = (if js_lt a b then b else a)"

fun js_min :: "number \<Rightarrow> number \<Rightarrow> number" where
  "js_min NaN _ = NaN"
| "js_min _ NaN = NaN"
| "js_min Undefined _ = NaN"
| "js_min _ Undefined = NaN"
| "js_min a b = (if js_lt b a then b else a)"

text \<open>
  \<open>xs[i]\<close>: the element at an index that is a non-negative integer below the length,
  \<open>undefined\<close> for every other index value.
\<close>

fun js_index :: "number list \<Rightarrow> number \<Rightarrow> number" where
  "js_index xs (Fin r) =
     (if 0 \<le> r \<and> r = of_int \<lfloor>r\<rfloor> \<and> nat \<lfloor>r\<rfloor> < length xs then xs ! nat \<lfloor>r\<rfloor>
      else Undefined)"
| "js_index xs _ = Undefined"

text \<open>
  \<open>[...values].sort((a, b) => a - b)\<close>. ECMAScript moves \<open>undefined\<close> elements to the
  end without calling the comparator and sorts the others stably; a comparator result of
  NaN counts as 0. The sort is modelled as a stable insertion sort: each element is put
  behind the elements it does not compare below. On arrays without NaN the comparator is
  a consistent order and every conforming engine returns this list; on arrays with NaN
  the standard leaves the order to the engine and the model fixes one choice.
\<close>

definition compare_sub :: "number \<Rightarrow> number \<Rightarrow> bool" where
  "compare_sub a b = js_lt (js_sub a b) (Fin 0)"

fun insert_sorted :: "number \<Rightarrow> number list \<Rightarrow> number list" where
  "insert_sorted x [] = [x]"
| "insert_sorted x (y # ys) =
     (if compare_sub x y then x # y # ys else y # insert_sorted x ys)"

definition js_sort :: "number list \<Rightarrow> number list" where
  "js_sort xs =
     foldl (\<lambda>acc x. insert_sorted x acc) [] (filter (\<lambda>x. x \<noteq> Undefined) xs)
       @ filter (\<lambda>x. x = Undefined) xs"

section \<open>Double precision\<close>

text \<open>
  A finite double is a real \<open>m * 2 ^ k\<close> with an integer \<open>m\<close>, \<open>\<bar>m\<bar> < 2 ^ 53\<close>, and
  \<open>- 1074 \<le> k \<le> 971\<close>. Around a real \<open>x\<close> the doubles are spaced \<open>2 ^ ulp_exp x\<close>
  apart: the exponent is \<open>\<lfloor>log\<^sub>2 \<bar>x\<bar>\<rfloor> - 52\<close>, and \<open>- 1074\<close> in the subnormal range.
  \<open>rne\<close> rounds a real to the nearest integer, a tie to the even one, so \<open>nearest64 x\<close>
  is the multiple of the spacing nearest to \<open>x\<close> (roundTiesToEven), and \<open>fl64 x\<close> is the
  double that an operation with the exact result \<open>x\<close> returns: an infinity once the
  rounded magnitude reaches \<open>2 ^ 1024\<close>.
\<close>

definition rne :: "real \<Rightarrow> int" where
  "rne y = (let f = \<lfloor>y\<rfloor>; d = y - of_int f
            in if d < 1 / 2 then f else if 1 / 2 < d then f + 1 else if even f then f else f + 1)"

definition ulp_exp :: "real \<Rightarrow> int" where
  "ulp_exp x = max \<lfloor>log 2 \<bar>x\<bar>\<rfloor> (- 1022) - 52"

definition nearest64 :: "real \<Rightarrow> real" where
  "nearest64 x = of_int (rne (x / 2 powi ulp_exp x)) * 2 powi ulp_exp x"

definition fl64 :: "real \<Rightarrow> number" where
  "fl64 x = (let v = nearest64 x
             in if 2 powi 1024 \<le> v then PosInf else if v \<le> - (2 powi 1024) then NegInf else Fin v)"

text \<open>
  Each arithmetic operator of doubles is the exact operator followed by the rounding of a
  finite result. A numeric literal of the source is the double nearest to its decimal
  value, \<open>fl64 0.99\<close> for \<open>0.99\<close>. \<open>x ** 2\<close> is taken as the rounded product \<open>x * x\<close>;
  the statements below use only that it is not negative. \<open>Math.floor\<close>, \<open>Math.ceil\<close>,
  \<open>Math.abs\<close>, \<open>Math.min\<close>, \<open>Math.max\<close>, \<open>%\<close> and the comparisons are exact on doubles.
  So is the sign of the difference \<open>a - b\<close> that the comparator of the sort returns,
  and the length of an array, an integer below \<open>2 ^ 32\<close>, with its predecessor.
\<close>

fun round64 :: "number \<Rightarrow> number" where
  "round64 (Fin r) = fl64 r"
| "round64 x = x"

definition add64 :: "number \<Rightarrow> number \<Rightarrow> number" where
  "add64 a b = round64 (js_add a b)"

definition sub64 :: "number \<Rightarrow> number \<Rightarrow> number" where
  "sub64 a b = round64 (js_sub a b)"

definition mul64 :: "number \<Rightarrow> number \<Rightarrow> number" where
  "mul64 a b = round64 (js_mul a b)"

definition div64 :: "number \<Rightarrow> number \<Rightarrow> number" where
  "div64 a b = round64 (js_div a b)"

definition sqrt64 :: "number \<Rightarrow> number" where
  "sqrt64 a = round64 (js_sqrt a)"

definition sq64 :: "number \<Rightarrow> number" where
  "sq64 x = mul64 x x"

section \<open>StatisticalUtils.ts\<close>

text \<open>\<open>percentile(values, p)\<close>: sort, then read index \<open>max(0, ceil(n * p) - 1)\<close>.\<close>

definition percentile :: "number list \<Rightarrow> number \<Rightarrow> number" where
  "percentile values p =
     (let sorted = js_sort values;
          index = js_sub (js_ceil (js_mul (Fin (real (length sorted))) p)) (Fin 1)
      in js_index sorted (js_max (Fin 0) index))"

text \<open>The same function on doubles: the product \<open>n * p\<close> is rounded.\<close>

definition percentile64 :: "number list \<Rightarrow> number \<Rightarrow> number" where
  "percentile64 values p =
     (let sorted = js_sort values;
          index = sub64 (js_ceil (mul64 (Fin (real (length sorted))) p)) (Fin 1)
      in js_index sorted (js_max (Fin 0) index))"

text \<open>
  \<open>average\<close>: \<open>values.reduce((a, b) => a + b, 0) / values.length\<close>, and the measures of
  variability built on it, on doubles.
\<close>

definition average64 :: "number list \<Rightarrow> number" where
  "average64 values =
     (let sum = foldl add64 (Fin 0) values
      in div64 sum (Fin (real (length values))))"

definition standardDeviation64 :: "number list \<Rightarrow> number" where
  "standardDeviation64 samples =
     (if length samples \<le> 1 then Fin 0
      else let mean = average64 samples;
               variance = div64 (foldl (\<lambda>sum x. add64 sum (sq64 (sub64 x mean))) (Fin 0) samples)
                                (Fin (real (length samples) - 1))
           in sqrt64 variance)"

definition coefficientOfVariation64 :: "number list \<Rightarrow> number" where
  "coefficientOfVariation64 samples =
     (let mean = average64 samples
      in if js_eq mean (Fin 0) then Fin 0
         else let stdDev = standardDeviation64 samples in div64 stdDev mean)"

definition medianAbsoluteDeviation64 :: "number list \<Rightarrow> number" where
  "medianAbsoluteDeviation64 samples =
     (let median = percentile64 samples (fl64 0.5);
          deviations = map (\<lambda>x. js_abs (sub64 x median)) samples
      in percentile64 deviations (fl64 0.5))"

definition outlierMultiplier :: number where
  "outlierMultiplier = Fin 1.5"

record outliers =
  rate :: number
  indices :: "int list"

definition findOutliers64 :: "number list \<Rightarrow> outliers" where
  "findOutliers64 samples =
     (let q1 = percentile64 samples (fl64 0.25);
          q3 = percentile64 samples (fl64 0.75);
          iqr = sub64 q3 q1;
          lowerBound = sub64 q1 (mul64 outlierMultiplier iqr);
          upperBound = add64 q3 (mul64 outlierMultiplier iqr);
          indices = filter (\<lambda>i. 0 \<le> i)
                      (map (\<lambda>(v, i). if js_lt v lowerBound \<or> js_gt v upperBound then int i else - 1)
                           (zip samples [0 ..< length samples]))
      in \<lparr> rate = div64 (Fin (real (length indices))) (Fin (real (length samples))),
           indices = indices \<rparr>)"

text \<open>
  \<open>Math.random()\<close> is the only source of randomness. It is modelled by a sequence
  \<open>rnd\<close> of draws and a counter \<open>k\<close> of the draws used so far, threaded through the
  calls. \<open>createResample\<close> makes \<open>n\<close> draws and reads \<open>samples[floor(r * n)]\<close> for each.
\<close>

definition createResample :: "(nat \<Rightarrow> real) \<Rightarrow> nat \<Rightarrow> number list \<Rightarrow> number list" where
  "createResample rnd k samples =
     (let n = length samples
      in map (\<lambda>i. js_index samples (js_floor (js_mul (Fin (rnd (k + i))) (Fin (real n))))) [0 ..< n])"

definition computeInterval :: "number list \<Rightarrow> number \<Rightarrow> number \<times> number" where
  "computeInterval medians confidence =
     (let alpha = js_div (js_sub (Fin 1) confidence) (Fin 2);
          lower = percentile medians alpha;
          upper = percentile medians (js_sub (Fin 1) alpha)
      in (lower, upper))"

datatype CIDirection = Faster | Slower | Uncertain

record DifferenceCI =
  percent :: number
  ci :: "number \<times> number"
  direction :: CIDirection

record BootstrapOptions =
  resamples :: "nat option"
  confidence :: "number option"

definition bootstrapSamples :: nat where
  "bootstrapSamples = 10000"

definition default_confidence :: number where
  "default_confidence = Fin 0.95"

text \<open>
  The resampling loop of \<open>bootstrapDifferenceCI\<close>: each round resamples the baseline,
  then the current samples, and pushes the percentage difference of the two medians.
\<close>

fun bootstrap_diffs :: "(nat \<Rightarrow> real) \<Rightarrow> nat \<Rightarrow> number list \<Rightarrow> number list \<Rightarrow> nat \<Rightarrow> number list" where
  "bootstrap_diffs rnd k baseline current 0 = []"
| "bootstrap_diffs rnd k baseline current (Suc m) =
     (let resB = createResample rnd k baseline;
          resC = createResample rnd (k + length baseline) current;
          medB = percentile resB (Fin 0.5);
          medC = percentile resC (Fin 0.5)
      in js_mul (js_div (js_sub medC medB) medB) (Fin 100)
           # bootstrap_diffs rnd (k + length baseline + length current) baseline current m)"

text \<open>
  \<open>bootstrapDifferenceCI\<close>. The histogram of the resample distribution that the source
  also returns is left out: no statement below reads it, and \<open>binValues\<close> has no
  \<open>throw\<close>. Nothing on this path raises, so the function is total.
\<close>

definition bootstrapDifferenceCI ::
  "(nat \<Rightarrow> real) \<Rightarrow> number list \<Rightarrow> number list \<Rightarrow> BootstrapOptions \<Rightarrow> DifferenceCI" where
  "bootstrapDifferenceCI rnd baseline current options =
     (let n = (case resamples options of None \<Rightarrow> bootstrapSamples | Some r \<Rightarrow> r);
          conf = (case confidence options of None \<Rightarrow> default_confidence | Some c \<Rightarrow> c);
          baselineMedian = percentile baseline (Fin 0.5);
          currentMedian = percentile current (Fin 0.5);
          observedPercent =
            js_mul (js_div (js_sub currentMedian baselineMedian) baselineMedian) (Fin 100);
          diffs = bootstrap_diffs rnd 0 baseline current n;
          ci = computeInterval diffs conf;
          excludesZero = (js_gt (fst ci) (Fin 0) \<or> js_lt (snd ci) (Fin 0));
          direction = (if excludesZero
                       then (if js_lt observedPercent (Fin 0) then Faster else Slower)
                       else Uncertain)
      in \<lparr> percent = observedPercent, ci = ci, direction = direction \<rparr>)"

section \<open>BasicRunner.ts: the basic collector\<close>







text \<open>
  \<open>collectSamples\<close> checks its limits before it does anything else. A limit counts as
  missing when it is falsy: 0, NaN or \<open>undefined\<close>. The measurement itself (warmup, the
  sample loop) is given by the parameters \<open>runWarmup\<close> and \<open>runSampleLoop\<close>; the list
  of actions returned beside the result records, in order, the benchmark work that was
  carried out. Every \<open>throw new Error(msg)\<close> is the value \<open>Inl (Error msg)\<close>.
\<close>

datatype error = Error string

datatype action = RunWarmup | RunSampleLoop | RunWorker | RunInline

definition js_falsy :: "number \<Rightarrow> bool" where
  "js_falsy x = (x = Fin 0 \<or> x = NaN \<or> x = Undefined)"

record CollectParams =
  p_name :: string
  p_maxTime :: number
  p_maxIterations :: number
  p_warmup :: number
  p_skipWarmup :: bool

record CollectResult =
  r_samples :: "number list"
  r_warmupSamples :: "number list"

definition collectSamples ::
  "(CollectParams \<Rightarrow> number list) \<Rightarrow> (CollectParams \<Rightarrow> number list) \<Rightarrow> CollectParams
     \<Rightarrow> (error + CollectResult) \<times> action list" where
  "collectSamples runWarmup runSampleLoop p =
     (if js_falsy (p_maxIterations p) \<and> js_falsy (p_maxTime p)
      then (Inl (Error ''At least one of maxIterations or maxTime must be set''), [])
      else let (warmupSamples, log1) =
                 (if p_skipWarmup p then ([], []) else (runWarmup p, [RunWarmup]));
               samples = runSampleLoop p;
               log2 = log1 @ [RunSampleLoop]
           in if length samples = 0
              then (Inl (Error (''No samples collected for benchmark: '' @ p_name p)), log2)
              else (Inr \<lparr> r_samples = samples, r_warmupSamples = warmupSamples \<rparr>, log2))"

section \<open>AdaptiveWrapper.ts\<close>

definition msToNs :: number where
  \<comment> \<open>Modelled from the spec: \<open>msToNs\<close> of RunnerUtils.ts, which is not among the sources;
      samples are milliseconds and the convergence check takes nanoseconds.\<close>
  "msToNs = Fin 1000000"

definition stability :: number where
  "stability = Fin 0.05"

definition fallbackThreshold :: number where
  "fallbackThreshold = Fin 80"

definition windowSize :: nat where
  "windowSize = 50"

definition continueBatch :: number where
  "continueBatch = Fin 100"

definition continueIterations :: number where
  "continueIterations = Fin 10"

record Metrics =
  medianDrift :: number
  impactDrift :: number
  medianStable :: bool
  impactStable :: bool

record ConvergenceResult =
  converged :: bool
  conv_confidence :: number
  reason :: string



text \<open>
  \<open>getOutlierImpact\<close>: the loop over the samples carries \<open>(excessTime, count)\<close>.
\<close>

definition getOutlierImpact :: "number list \<Rightarrow> number \<times> nat" where
  "getOutlierImpact samples =
     (if length samples = 0 then (Fin 0, 0)
      else let median = percentile samples (Fin 0.5);
               q75 = percentile samples (Fin 0.75);
               threshold = js_add median (js_mul (Fin 1.5) (js_sub q75 median));
               (excessTime, count) =
                 foldl (\<lambda>(excess, cnt) sample.
                          if js_gt sample threshold
                          then (js_add excess (js_sub sample median), Suc cnt)
                          else (excess, cnt))
                       (Fin 0, 0) samples;
               totalTime = foldl js_add (Fin 0) samples
           in (if js_gt totalTime (Fin 0) then js_div excessTime totalTime else Fin 0, count))"





text \<open>
  \<open>samples.slice(-k)\<close> for \<open>k > 0\<close> and \<open>samples.slice(-2 * k, -k)\<close>: negative
  positions count from the end and are clamped at 0.
\<close>

definition slice_last :: "nat \<Rightarrow> 'a list \<Rightarrow> 'a list" where
  "slice_last k xs = drop (length xs - k) xs"

definition slice_previous :: "nat \<Rightarrow> 'a list \<Rightarrow> 'a list" where
  "slice_previous k xs = drop (length xs - 2 * k) (take (length xs - k) xs)"

definition getWindowSize :: "number list \<Rightarrow> nat" where
  "getWindowSize samples =
     (if length samples < 20 then windowSize
      else let recentMs = map (\<lambda>s. js_div s msToNs) (slice_last 20 samples);
               recentMedian = percentile recentMs (Fin 0.5)
           in if js_lt recentMedian (Fin 0.01) then 200
              else if js_lt recentMedian (Fin 0.1) then 100
              else if js_lt recentMedian (Fin 1) then 50
              else if js_lt recentMedian (Fin 10) then 30
              else 20)"

definition getStability :: "number list \<Rightarrow> nat \<Rightarrow> Metrics" where
  "getStability samples w =
     (let recent = slice_last w samples;
          previous = slice_previous w samples;
          recentMs = map (\<lambda>s. js_div s msToNs) recent;
          previousMs = map (\<lambda>s. js_div s msToNs) previous;
          medianRecent = percentile recentMs (Fin 0.5);
          medianPrevious = percentile previousMs (Fin 0.5);
          medianDrift = js_div (js_abs (js_sub medianRecent medianPrevious)) medianPrevious;
          impactRecent = getOutlierImpact recentMs;
          impactPrevious = getOutlierImpact previousMs;
          impactDrift = js_abs (js_sub (fst impactRecent) (fst impactPrevious))
      in \<lparr> medianDrift = medianDrift, impactDrift = impactDrift,
           medianStable = js_lt medianDrift stability,
           impactStable = js_lt impactDrift stability \<rparr>)"

text \<open>
  Template literals print the two sample counts, which are natural numbers, in decimal.
  \<open>Number.prototype.toFixed\<close>, used for the drift percentages, belongs to the runtime
  and is the parameter \<open>toFixed\<close>.
\<close>

definition digit_char :: "nat \<Rightarrow> char" where
  "digit_char n = ''0123456789'' ! n"

function show_nat :: "nat \<Rightarrow> string" where
  "show_nat n = (if n < 10 then [digit_char n] else show_nat (n div 10) @ [digit_char (n mod 10)])"
  by pat_completeness auto
termination
  by (relation "measure id") auto

definition buildProgressResult :: "nat \<Rightarrow> nat \<Rightarrow> ConvergenceResult" where
  "buildProgressResult currentSamples minSamples =
     \<lparr> converged = False,
       conv_confidence = js_mul (js_div (Fin (real currentSamples)) (Fin (real minSamples))) (Fin 100),
       reason = ''Collecting samples: '' @ show_nat currentSamples @ ''/'' @ show_nat minSamples \<rparr>"

definition buildConvergence :: "(number \<Rightarrow> nat \<Rightarrow> string) \<Rightarrow> Metrics \<Rightarrow> ConvergenceResult" where
  "buildConvergence toFixed metrics =
     (if medianStable metrics \<and> impactStable metrics
      then \<lparr> converged = True, conv_confidence = Fin 100, reason = ''Stable performance pattern'' \<rparr>
      else let confidence =
                 js_min (Fin 100)
                   (js_add (js_mul (js_sub (Fin 1) (js_div (medianDrift metrics) stability)) (Fin 50))
                           (js_mul (js_sub (Fin 1) (js_div (impactDrift metrics) stability)) (Fin 50)));
               reason =
                 (if js_gt (medianDrift metrics) (impactDrift metrics)
                  then ''Median drifting: '' @ toFixed (js_mul (medianDrift metrics) (Fin 100)) 1 @ ''%''
                  else ''Outlier impact changing: ''
                         @ toFixed (js_mul (impactDrift metrics) (Fin 100)) 1 @ ''%'')
           in \<lparr> converged = False, conv_confidence = js_max (Fin 0) confidence, reason = reason \<rparr>)"

definition checkConvergence :: "(number \<Rightarrow> nat \<Rightarrow> string) \<Rightarrow> number list \<Rightarrow> ConvergenceResult" where
  "checkConvergence toFixed samples =
     (let w = getWindowSize samples;
          minSamples = w * 2
      in if length samples < minSamples then buildProgressResult (length samples) minSamples
         else let metrics = getStability samples w in buildConvergence toFixed metrics)"

definition shouldStop :: "ConvergenceResult \<Rightarrow> number \<Rightarrow> number \<Rightarrow> number \<Rightarrow> bool" where
  "shouldStop convergence targetConfidence elapsedTime minTime =
     (if converged convergence \<and> js_ge (conv_confidence convergence) targetConfidence then True
      else let threshold = js_max targetConfidence fallbackThreshold
           in js_ge elapsedTime minTime \<and> js_ge (conv_confidence convergence) threshold)"

text \<open>
  \<open>collectAdaptive\<close>. The options handed to the base runner are a record of optional
  fields; the continuation batch overrides three of them. One pass of the loop body
  either breaks or runs a batch with these options. The clock is a sequence of readings
  of \<open>performance.now()\<close>, the base runner a function from the options and the number of
  the call to the samples of its first result; the loop returns the samples and the
  options of every batch it ran. The progress line written to stderr is left out.
\<close>

record RunnerOptions =
  opt_maxTime :: "number option"
  opt_maxIterations :: "number option"
  opt_warmup :: "number option"
  opt_skipWarmup :: "bool option"

record Limits =
  lim_minTime :: number
  lim_maxTime :: number
  lim_targetConfidence :: number
  lim_startTime :: number

datatype pass = Break | Batch RunnerOptions

definition adaptive_pass ::
  "(number \<Rightarrow> nat \<Rightarrow> string) \<Rightarrow> RunnerOptions \<Rightarrow> Limits \<Rightarrow> number list \<Rightarrow> number \<Rightarrow> pass" where
  "adaptive_pass toFixed runnerOptions limits allSamples elapsed =
     (let samplesNs = map (\<lambda>s. js_mul s msToNs) allSamples;
          convergence = checkConvergence toFixed samplesNs
      in if shouldStop convergence (lim_targetConfidence limits) elapsed (lim_minTime limits)
         then Break
         else Batch (runnerOptions \<lparr> opt_maxTime := Some continueBatch,
                                     opt_maxIterations := Some continueIterations,
                                     opt_skipWarmup := Some True \<rparr>))"

partial_function (option) collectAdaptive ::
  "(number \<Rightarrow> nat \<Rightarrow> string) \<Rightarrow> (nat \<Rightarrow> number) \<Rightarrow> (RunnerOptions \<Rightarrow> nat \<Rightarrow> number list)
     \<Rightarrow> RunnerOptions \<Rightarrow> Limits \<Rightarrow> nat \<Rightarrow> number list \<Rightarrow> RunnerOptions list
     \<Rightarrow> (number list \<times> RunnerOptions list) option" where
  "collectAdaptive toFixed now runBench runnerOptions limits tick allSamples batches =
     (if js_lt (js_sub (now tick) (lim_startTime limits)) (lim_maxTime limits)
      then let elapsed = js_sub (now (Suc tick)) (lim_startTime limits)
           in (case adaptive_pass toFixed runnerOptions limits allSamples elapsed of
                 Break \<Rightarrow> Some (allSamples, batches)
               | Batch opts \<Rightarrow>
                   collectAdaptive toFixed now runBench runnerOptions limits (Suc (Suc tick))
                     (allSamples @ runBench opts (length batches)) (batches @ [opts]))
      else Some (allSamples, batches))"

section \<open>GcStats.ts\<close>

text \<open>
  A line is a string of code units below 256. \<open>\w\<close> is a letter, a digit or the
  underscore; \<open>\s\<close> is one of the six ASCII white-space characters or the no-break
  space.
\<close>

definition is_word :: "char \<Rightarrow> bool" where
  "is_word c = (c \<in> set ''abcdefghijklmnopqrstuvwxyzABCDEFGHIJKLMNOPQRSTUVWXYZ0123456789_'')"

definition is_space :: "char \<Rightarrow> bool" where
  "is_space c = (c \<in> set [CHR 0x09, CHR 0x0A, CHR 0x0B, CHR 0x0C, CHR 0x0D, CHR '' '', CHR 0xA0])"

definition is_value_char :: "char \<Rightarrow> bool" where
  \<comment> \<open>\<open>[^\s,]\<close>\<close>
  "is_value_char c = (\<not> is_space c \<and> c \<noteq> CHR '','')"

definition is_digit :: "char \<Rightarrow> bool" where
  "is_digit c = (c \<in> set ''0123456789'')"

definition starts_with :: "string \<Rightarrow> string \<Rightarrow> bool" where
  "starts_with p s = (take (length p) s = p)"

fun str_includes :: "string \<Rightarrow> string \<Rightarrow> bool" where
  "str_includes [] p = (p = [])"
| "str_includes (c # cs) p = (starts_with p (c # cs) \<or> str_includes cs p)"

text \<open>
  One attempt to match \<open>(\w+)=([^\s,]+)\<close> at the start of a string: the longest run of
  word characters, an equals sign, the longest run of value characters. A shorter key is
  never followed by \<open>=\<close>, so backtracking cannot find another match at this position.
\<close>

definition match_at :: "string \<Rightarrow> (string \<times> string) option" where
  "match_at s =
     (let key = takeWhile is_word s; r = dropWhile is_word s
      in if key = [] then None
         else (case r of
                 [] \<Rightarrow> None
               | c # r' \<Rightarrow>
                   if c = CHR ''='' \<and> takeWhile is_value_char r' \<noteq> []
                   then Some (key, takeWhile is_value_char r') else None))"

text \<open>\<open>line.matchAll(/(\w+)=([^\s,]+)/g)\<close>: leftmost matches, each search resuming behind the last match.\<close>

function matchAll :: "string \<Rightarrow> (string \<times> string) list" where
  "matchAll s =
     (if s = [] then []
      else (case match_at s of
              Some (key, val) \<Rightarrow> (key, val) # matchAll (drop (length key + 1 + length val) s)
            | None \<Rightarrow> matchAll (drop 1 s)))"
  by pat_completeness auto
termination
  by (relation "measure length") auto

text \<open>\<open>fields[key] = value\<close> for each match in turn: the last value of a key stays.\<close>

definition parseNvpFields :: "string \<Rightarrow> string \<rightharpoonup> string" where
  "parseNvpFields line = map_of (rev (matchAll line))"

definition digit_val :: "char \<Rightarrow> nat" where
  "digit_val c = of_char c - 48"

definition digits_val :: "string \<Rightarrow> nat" where
  "digits_val ds = foldl (\<lambda>a c. 10 * a + digit_val c) 0 ds"

definition split_sign :: "string \<Rightarrow> bool \<times> string" where
  "split_sign s =
     (case s of [] \<Rightarrow> (False, [])
      | c # t \<Rightarrow> if c = CHR ''-'' then (True, t) else if c = CHR ''+'' then (False, t) else (False, c # t))"

text \<open>\<open>Number.parseInt(s, 10)\<close>: white space, a sign, the longest run of digits; NaN without a digit.\<close>

definition parseInt :: "string \<Rightarrow> number" where
  "parseInt s =
     (let (neg, r) = split_sign (dropWhile is_space s);
          ds = takeWhile is_digit r
      in if ds = [] then NaN
         else Fin (if neg then - real (digits_val ds) else real (digits_val ds)))"

text \<open>
  \<open>Number.parseFloat(s)\<close>: the longest prefix that is a decimal literal: a sign,
  then \<open>Infinity\<close> or digits with an optional fraction and an optional exponent;
  NaN when there is no such prefix. An exponent counts only when it has a digit.
\<close>

definition parse_exponent :: "string \<Rightarrow> int" where
  "parse_exponent r =
     (case r of [] \<Rightarrow> 0
      | c # t \<Rightarrow>
          if c = CHR ''e'' \<or> c = CHR ''E''
          then (let (neg, u) = split_sign t; ds = takeWhile is_digit u
                in if ds = [] then 0
                   else if neg then - int (digits_val ds) else int (digits_val ds))
          else 0)"

definition parseFloat :: "string \<Rightarrow> number" where
  "parseFloat s =
     (let (neg, r) = split_sign (dropWhile is_space s)
      in if starts_with ''Infinity'' r then (if neg then NegInf else PosInf)
         else let ip = takeWhile is_digit r;
                  r1 = dropWhile is_digit r;
                  has_point = (r1 \<noteq> [] \<and> hd r1 = CHR ''.'');
                  fp = (if has_point then takeWhile is_digit (tl r1) else []);
                  r2 = (if has_point then dropWhile is_digit (tl r1) else r1)
              in if ip = [] \<and> fp = [] then NaN
                 else let mantissa = real (digits_val ip) + real (digits_val fp) / 10 ^ length fp;
                          v = mantissa * 10 powi parse_exponent r2
                      in Fin (if neg then - v else v))"

datatype GcType = Scavenge | MarkCompact | MinorMs | Unknown

record GcEvent =
  ev_type :: GcType
  ev_pauseMs :: number
  ev_collected :: number
  ev_allocated :: "number option"
  ev_promoted :: "number option"
  ev_survived :: "number option"

definition parseGcType :: "string \<Rightarrow> GcType" where
  "parseGcType gcField =
     (if gcField = ''s'' \<or> gcField = ''scavenge'' then Scavenge
      else if gcField = ''mc'' \<or> gcField = ''ms'' \<or> gcField = ''mark-compact'' then MarkCompact
      else if gcField = ''mmc'' \<or> gcField = ''minor-mc'' \<or> gcField = ''minor-ms'' then MinorMs
      else Unknown)"

definition or_zero :: "string option \<Rightarrow> string" where
  \<comment> \<open>\<open>fields[k] || "0"\<close>\<close>
  "or_zero v = (case v of None \<Rightarrow> ''0'' | Some s \<Rightarrow> if s = [] then ''0'' else s)"

definition js_or :: "number \<Rightarrow> number \<Rightarrow> number" where
  \<comment> \<open>\<open>a || b\<close>\<close>
  "js_or a b = (if js_falsy a then b else a)"

definition parseGcLine :: "string \<Rightarrow> GcEvent option" where
  "parseGcLine line =
     (if \<not> str_includes line ''pause='' then None
      else let fields = parseNvpFields line
           in (case fields ''gc'' of
                 None \<Rightarrow> None
               | Some gc \<Rightarrow>
                   if gc = [] then None
                   else let int = (\<lambda>k. parseInt (or_zero (fields k)));
                            type = parseGcType gc;
                            pauseMs = parseFloat (or_zero (fields ''pause''));
                            allocated = int ''allocated'';
                            promoted = int ''promoted'';
                            survived = js_or (int ''new_space_survived'') (int ''survived'');
                            startSize = int ''start_object_size'';
                            endSize = int ''end_object_size'';
                            collected = (if js_gt startSize endSize then js_sub startSize endSize
                                         else Fin 0)
                        in if pauseMs = NaN then None
                           else Some \<lparr> ev_type = type, ev_pauseMs = pauseMs, ev_collected = collected,
                                       ev_allocated = Some allocated, ev_promoted = Some promoted,
                                       ev_survived = Some survived \<rparr>))"

record GcStats =
  scavenges :: nat
  markCompacts :: nat
  totalCollected :: number
  gcPauseTime :: number
  totalAllocated :: "number option"
  totalPromoted :: "number option"
  totalSurvived :: "number option"

text \<open>The local variables of \<open>aggregateGcStats\<close>, and one round of its loop.\<close>

record GcAcc =
  a_scavenges :: nat
  a_markCompacts :: nat
  a_gcPauseTime :: number
  a_totalCollected :: number
  a_hasNodeFields :: bool
  a_totalAllocated :: number
  a_totalPromoted :: number
  a_totalSurvived :: number

definition gc_step :: "GcAcc \<Rightarrow> GcEvent \<Rightarrow> GcAcc" where
  "gc_step a e =
     (let a1 = (if ev_type e = Scavenge \<or> ev_type e = MinorMs
                then a \<lparr> a_scavenges := a_scavenges a + 1 \<rparr>
                else if ev_type e = MarkCompact then a \<lparr> a_markCompacts := a_markCompacts a + 1 \<rparr>
                else a);
          a2 = a1 \<lparr> a_gcPauseTime := js_add (a_gcPauseTime a1) (ev_pauseMs e),
                    a_totalCollected := js_add (a_totalCollected a1) (ev_collected e) \<rparr>
      in (case ev_allocated e of
            None \<Rightarrow> a2
          | Some allocated \<Rightarrow>
              a2 \<lparr> a_hasNodeFields := True,
                   a_totalAllocated := js_add (a_totalAllocated a2) allocated,
                   a_totalPromoted :=
                     js_add (a_totalPromoted a2) (case ev_promoted e of None \<Rightarrow> Fin 0 | Some v \<Rightarrow> v),
                   a_totalSurvived :=
                     js_add (a_totalSurvived a2) (case ev_survived e of None \<Rightarrow> Fin 0 | Some v \<Rightarrow> v) \<rparr>))"

definition gc_init :: GcAcc where
  "gc_init = \<lparr> a_scavenges = 0, a_markCompacts = 0, a_gcPauseTime = Fin 0, a_totalCollected = Fin 0,
               a_hasNodeFields = False, a_totalAllocated = Fin 0, a_totalPromoted = Fin 0,
               a_totalSurvived = Fin 0 \<rparr>"

definition aggregateGcStats :: "GcEvent list \<Rightarrow> GcStats" where
  "aggregateGcStats events =
     (let a = foldl gc_step gc_init events
      in \<lparr> scavenges = a_scavenges a, markCompacts = a_markCompacts a,
           totalCollected = a_totalCollected a, gcPauseTime = a_gcPauseTime a,
           totalAllocated = (if a_hasNodeFields a then Some (a_totalAllocated a) else None),
           totalPromoted = (if a_hasNodeFields a then Some (a_totalPromoted a) else None),
           totalSurvived = (if a_hasNodeFields a then Some (a_totalSurvived a) else None) \<rparr>)"

section \<open>BenchMatrix.ts\<close>

text \<open>
  The configuration of a matrix, with its optional fields. Inline variants are listed by
  their names. An optional string is truthy when it is present and not empty; an object
  is truthy when it is present. The two ways of running the benchmarks are the
  parameters \<open>withDir\<close> (the body of \<open>runMatrixWithDir\<close>) and \<open>inline\<close> (what
  \<open>runMatrixInline\<close> does after its check); they return their result together with the
  list of the benchmark work they carried out.
\<close>

record BenchMatrix =
  m_name :: string
  m_variantDir :: "string option"
  m_variants :: "string list option"
  m_cases :: "string list option"
  m_casesModule :: "string option"
  m_baselineDir :: "string option"
  m_baselineVariant :: "string option"

definition truthy :: "string option \<Rightarrow> bool" where
  "truthy v = (case v of None \<Rightarrow> False | Some s \<Rightarrow> s \<noteq> [])"

definition validateBaseline :: "BenchMatrix \<Rightarrow> error + unit" where
  "validateBaseline matrix =
     (if truthy (m_baselineDir matrix) \<and> truthy (m_baselineVariant matrix)
      then Inl (Error (''BenchMatrix cannot have both 'baselineDir' and 'baselineVariant'' @ [CHR 0x27]))
      else Inr ())"

definition runMatrixInline ::
  "(BenchMatrix \<Rightarrow> 'o \<Rightarrow> (error + 'r) \<times> action list) \<Rightarrow> BenchMatrix \<Rightarrow> 'o
     \<Rightarrow> (error + 'r) \<times> action list" where
  "runMatrixInline inline matrix options =
     (if truthy (m_baselineDir matrix)
      then (Inl (Error ''BenchMatrix with inline 'variants' cannot use 'baselineDir'. Use 'variantDir' instead.''), [])
      else inline matrix options)"

definition runMatrix ::
  "(BenchMatrix \<Rightarrow> 'o \<Rightarrow> (error + 'r) \<times> action list)
     \<Rightarrow> (BenchMatrix \<Rightarrow> 'o \<Rightarrow> (error + 'r) \<times> action list) \<Rightarrow> BenchMatrix \<Rightarrow> 'o
     \<Rightarrow> (error + 'r) \<times> action list" where
  "runMatrix withDir inline matrix options =
     (case validateBaseline matrix of
        Inl e \<Rightarrow> (Inl e, [])
      | Inr _ \<Rightarrow>
          if truthy (m_variantDir matrix) then withDir matrix options
          else if m_variants matrix \<noteq> None then runMatrixInline inline matrix options
          else (Inl (Error (''BenchMatrix requires either 'variants' or 'variantDir'' @ [CHR 0x27])), []))"

section \<open>Auxiliary functions on real numbers\<close>

text \<open>
  The counterparts, on lists of reals, of the insertion step of the sort and of the
  interpolation of the collector. They are used only to state and prove facts about the
  functions above on arrays of finite numbers.
\<close>

fun ins :: "real \<Rightarrow> real list \<Rightarrow> real list" where
  "ins x [] = [x]"
| "ins x (y # ys) = (if x < y then x # y # ys else y # ins x ys)"


text \<open>
  The index that \<open>percentile64\<close> reads in a list of \<open>n\<close> values, and the numbers that
  the relational operators order: all but NaN and \<open>Undefined\<close>.
\<close>

definition rank64 :: "nat \<Rightarrow> real \<Rightarrow> nat" where
  "rank64 n q = (case fl64 (real n * q) of Fin v \<Rightarrow> nat (max 0 (\<lceil>v\<rceil> - 1)) | _ \<Rightarrow> 0)"

definition ordered :: "number \<Rightarrow> bool" where
  "ordered a = (a \<noteq> NaN \<and> a \<noteq> Undefined)"

text \<open>
  The mean of a list of reals, the sums of the squared and of the absolute deviations
  from a value, and the relative standard deviation with Bessel's correction: what
  \<open>average\<close>, \<open>standardDeviation\<close> and \<open>coefficientOfVariation\<close> denote without rounding.
  \<open>excess\<close> is the sum that the loop of \<open>getOutlierImpact\<close> accumulates.
\<close>

definition mean :: "real list \<Rightarrow> real" where
  "mean ys = sum_list ys / real (length ys)"

definition sqdev :: "real \<Rightarrow> real list \<Rightarrow> real" where
  "sqdev m ys = sum_list (map (\<lambda>y. (y - m) * (y - m)) ys)"

definition absdev :: "real \<Rightarrow> real list \<Rightarrow> real" where
  "absdev m ys = sum_list (map (\<lambda>y. \<bar>y - m\<bar>) ys)"

definition rsd :: "real list \<Rightarrow> real" where
  "rsd ys = sqrt (sqdev (mean ys) ys / (real (length ys) - 1)) / mean ys"

definition excess :: "real \<Rightarrow> real \<Rightarrow> real list \<Rightarrow> real" where
  "excess med thr zs = sum_list (map (\<lambda>z. z - med) (filter (\<lambda>z. thr < z) zs))"

section \<open>The sort on finite numbers\<close>

lemma insert_sorted_Fin: "insert_sorted (Fin x) (map Fin ys) = map Fin (ins x ys)"
  by (induction ys) (simp_all add: compare_sub_def js_sub_def)

lemma mset_ins: "mset (ins x ys) = add_mset x (mset ys)"
  by (induction ys) simp_all

lemma set_ins: "set (ins x ys) = insert x (set ys)"
  by (induction ys) auto

lemma sorted_ins: "sorted ys \<Longrightarrow> sorted (ins x ys)"
  by (induction ys) (auto simp: set_ins)

lemma foldl_insert_sorted_Fin:
  "foldl (\<lambda>acc x. insert_sorted x acc) (map Fin acc) (map Fin rs)
     = map Fin (foldl (\<lambda>acc x. ins x acc) acc rs)"
  by (induction rs arbitrary: acc) (simp_all add: insert_sorted_Fin)

lemma mset_foldl_ins: "mset (foldl (\<lambda>acc x. ins x acc) acc rs) = mset acc + mset rs"
  by (induction rs arbitrary: acc) (simp_all add: mset_ins)

lemma sorted_foldl_ins: "sorted acc \<Longrightarrow> sorted (foldl (\<lambda>acc x. ins x acc) acc rs)"
  by (induction rs arbitrary: acc) (simp_all add: sorted_ins)

lemma foldl_ins_sort: "foldl (\<lambda>acc x. ins x acc) [] rs = sort rs"
  by (rule properties_for_sort [symmetric]) (simp_all add: mset_foldl_ins sorted_foldl_ins)

lemma filter_defined_Fin: "filter (\<lambda>x. x \<noteq> Undefined) (map Fin rs) = map Fin rs"
  by (induction rs) simp_all

lemma filter_undefined_Fin: "filter (\<lambda>x. x = Undefined) (map Fin rs) = []"
  by (induction rs) simp_all

lemma js_sort_Fin: "js_sort (map Fin rs) = map Fin (sort rs)"
  using foldl_insert_sorted_Fin [of "[]" rs]
  by (simp add: js_sort_def filter_defined_Fin filter_undefined_Fin foldl_ins_sort)

lemma length_insert_sorted: "length (insert_sorted x ys) = Suc (length ys)"
  by (induction ys) simp_all

lemma length_foldl_insert_sorted:
  "length (foldl (\<lambda>acc x. insert_sorted x acc) acc xs) = length acc + length xs"
  by (induction xs arbitrary: acc) (simp_all add: length_insert_sorted)

lemma length_filter_undefined:
  "length (filter (\<lambda>x. x \<noteq> Undefined) xs) + length (filter (\<lambda>x. x = Undefined) xs) = length xs"
  by (induction xs) simp_all

lemma length_js_sort: "length (js_sort xs) = length xs"
  by (simp add: js_sort_def length_foldl_insert_sorted length_filter_undefined)

lemma js_sort_single: "js_sort [v] = [v]"
  by (cases "v = Undefined") (simp_all add: js_sort_def)

section \<open>Percentiles\<close>

lemma js_max_Fin: "js_max (Fin a) (Fin b) = Fin (max a b)"
  by (auto simp: max_def)

lemma js_min_Fin: "js_min (Fin a) (Fin b) = Fin (min a b)"
  by (auto simp: min_def)

lemma nearest_rank_index:
  assumes "0 < n" "0 \<le> q" "q \<le> 1"
  shows "nat (max 0 (\<lceil>real n * q\<rceil> - 1)) < n"
proof -
  have "real n * q \<le> real n" using assms by (simp add: mult_left_le)
  then have "\<lceil>real n * q\<rceil> \<le> int n" by (simp add: ceiling_le_iff)
  then show ?thesis using assms by auto
qed

lemma nearest_rank_number:
  "js_max (Fin 0) (js_sub (js_ceil (js_mul (Fin (real n)) (Fin q))) (Fin 1))
     = Fin (of_int (max 0 (\<lceil>real n * q\<rceil> - 1)))"
  unfolding js_sub_def by (simp only: js_mul.simps js_ceil.simps js_neg.simps js_add.simps js_max_Fin)
    (simp add: of_int_max)

lemma percentile_index:
  assumes "values \<noteq> []" "0 \<le> q" "q \<le> 1"
  shows "percentile values (Fin q) = js_sort values ! nat (max 0 (\<lceil>real (length values) * q\<rceil> - 1))"
proof -
  let ?n = "length values"
  let ?i = "max 0 (\<lceil>real ?n * q\<rceil> - 1)"
  have n: "0 < ?n" using assms by simp
  have lt: "nat ?i < ?n" using nearest_rank_index [OF n assms(2,3)] .
  have nonneg: "0 \<le> ?i" by simp
  show ?thesis
    unfolding percentile_def Let_def length_js_sort nearest_rank_number
    using lt nonneg by (simp add: length_js_sort)
qed

lemma percentile_Fin:
  assumes "rs \<noteq> []" "0 \<le> q" "q \<le> 1"
  shows "percentile (map Fin rs) (Fin q) = Fin (sort rs ! nat (max 0 (\<lceil>real (length rs) * q\<rceil> - 1)))"
proof -
  have "nat (max 0 (\<lceil>real (length rs) * q\<rceil> - 1)) < length (sort rs)"
    using nearest_rank_index [of "length rs" q] assms by simp
  then show ?thesis
    using percentile_index [of "map Fin rs" q] assms by (simp add: js_sort_Fin)
qed

lemma percentile_single:
  assumes "0 \<le> q" "q \<le> 1"
  shows "percentile [v] (Fin q) = v"
proof -
  have "nat (max 0 (\<lceil>real (length [v]) * q\<rceil> - 1)) < length [v]"
    using nearest_rank_index [of "length [v]" q] assms by simp
  then have "nat (max 0 (\<lceil>real (length [v]) * q\<rceil> - 1)) = 0" by simp
  then show ?thesis
    using percentile_index [of "[v]" q] assms by (simp add: js_sort_single)
qed



section \<open>C3: nearest-rank percentiles\<close>






section \<open>Rounding to the nearest double\<close>

lemma rne_int: "rne (of_int i) = i"
  by (simp add: rne_def)

lemma rne_mono: "a \<le> b \<Longrightarrow> rne a \<le> rne b"
proof -
  assume ab: "a \<le> b"
  have fl: "\<lfloor>a\<rfloor> \<le> \<lfloor>b\<rfloor>" using ab by (rule floor_mono)
  show ?thesis
  proof (cases "\<lfloor>a\<rfloor> = \<lfloor>b\<rfloor>")
    case True
    then show ?thesis using ab by (auto simp: rne_def Let_def)
  next
    case False
    then have "\<lfloor>a\<rfloor> + 1 \<le> \<lfloor>b\<rfloor>" using fl by simp
    moreover have "rne a \<le> \<lfloor>a\<rfloor> + 1" by (auto simp: rne_def Let_def)
    moreover have "\<lfloor>b\<rfloor> \<le> rne b" by (auto simp: rne_def Let_def)
    ultimately show ?thesis by linarith
  qed
qed

lemma rne_neg: "rne (- y) = - rne y"
proof (cases "y = of_int \<lfloor>y\<rfloor>")
  case True
  then obtain i where "y = of_int i" ..
  then have "rne (- y) = rne (of_int (- i))" by simp
  also have "\<dots> = - i" by (rule rne_int)
  finally show ?thesis using \<open>y = of_int i\<close> by (simp add: rne_int)
next
  case False
  then have lt: "of_int \<lfloor>y\<rfloor> < y" using of_int_floor_le [of y] by linarith
  have up: "y < of_int \<lfloor>y\<rfloor> + 1" by linarith
  have eq: "real_of_int (- \<lfloor>y\<rfloor> - 1) = - real_of_int \<lfloor>y\<rfloor> - 1" by simp
  have "real_of_int (- \<lfloor>y\<rfloor> - 1) \<le> - y" unfolding eq using up by linarith
  moreover have "- y < real_of_int (- \<lfloor>y\<rfloor> - 1) + 1" unfolding eq using lt by linarith
  ultimately have "\<lfloor>- y\<rfloor> = - \<lfloor>y\<rfloor> - 1" by (rule floor_unique)
  then show ?thesis using lt by (auto simp: rne_def Let_def)
qed

lemma powr2_powi: "(2::real) powr real_of_int k = 2 powi k"
  by (rule powr_real_of_int') simp_all

lemma floor_log2_iff:
  assumes "0 < x"
  shows "\<lfloor>log 2 x\<rfloor> = e \<longleftrightarrow> 2 powi e \<le> x \<and> x < 2 powi (e + 1)"
  using floor_log_eq_powr_iff [of x 2 e] assms unfolding powr2_powi by simp

lemma floor_log2_bounds:
  assumes "0 < x"
  shows "2 powi \<lfloor>log 2 x\<rfloor> \<le> x" and "x < 2 powi (\<lfloor>log 2 x\<rfloor> + 1)"
  using floor_log2_iff [OF assms, of "\<lfloor>log 2 x\<rfloor>"] by simp_all


lemma floor_log2_less:
  assumes "0 < x" "x < 2 powi e"
  shows "\<lfloor>log 2 x\<rfloor> < e"
proof (rule ccontr)
  assume "\<not> \<lfloor>log 2 x\<rfloor> < e"
  then have "2 powi e \<le> (2::real) powi \<lfloor>log 2 x\<rfloor>" by (intro power_int_increasing) simp_all
  then show False using floor_log2_bounds(1) [OF assms(1)] assms(2) by linarith
qed

lemma floor_log2_ge:
  assumes "2 powi e \<le> x"
  shows "e \<le> \<lfloor>log 2 x\<rfloor>"
proof (rule ccontr)
  have pos: "0 < x" using assms(1) zero_less_power_int [of "2::real" e] by linarith
  assume "\<not> e \<le> \<lfloor>log 2 x\<rfloor>"
  then have "2 powi (\<lfloor>log 2 x\<rfloor> + 1) \<le> (2::real) powi e" by (intro power_int_increasing) simp_all
  then show False using floor_log2_bounds(2) [OF pos] assms by linarith
qed

lemma ulp_exp_minus: "ulp_exp (- x) = ulp_exp x"
  by (simp add: ulp_exp_def)

lemma ulp_exp_ge: "- 1074 \<le> ulp_exp x"
  by (simp add: ulp_exp_def)

lemma ulp_exp_upper:
  assumes "x \<noteq> 0"
  shows "\<bar>x\<bar> < 2 powi (ulp_exp x + 53)"
proof -
  have pos: "0 < \<bar>x\<bar>" using assms by simp
  have "\<lfloor>log 2 \<bar>x\<bar>\<rfloor> + 1 \<le> ulp_exp x + 53" by (simp add: ulp_exp_def)
  then have "2 powi (\<lfloor>log 2 \<bar>x\<bar>\<rfloor> + 1) \<le> (2::real) powi (ulp_exp x + 53)"
    by (intro power_int_increasing) simp_all
  then show ?thesis using floor_log2_bounds(2) [OF pos] by linarith
qed

lemma ulp_exp_lower:
  assumes "x \<noteq> 0" "- 1074 < ulp_exp x"
  shows "2 powi (ulp_exp x + 52) \<le> \<bar>x\<bar>"
proof -
  have pos: "0 < \<bar>x\<bar>" using assms by simp
  have "ulp_exp x + 52 = \<lfloor>log 2 \<bar>x\<bar>\<rfloor>" using assms(2) by (simp add: ulp_exp_def max_def split: if_splits)
  then show ?thesis using floor_log2_bounds(1) [OF pos] by simp
qed

lemma ulp_exp_mono:
  assumes "0 < x" "x \<le> y"
  shows "ulp_exp x \<le> ulp_exp y"
proof -
  have "log 2 x \<le> log 2 y" using assms by simp
  then have "\<lfloor>log 2 x\<rfloor> \<le> \<lfloor>log 2 y\<rfloor>" by (rule floor_mono)
  then show ?thesis using assms by (simp add: ulp_exp_def)
qed

lemma ulp_exp_le:
  assumes "x \<noteq> 0" "\<bar>x\<bar> < 2 powi (j + 53)" "- 1074 \<le> j"
  shows "ulp_exp x \<le> j"
proof -
  have pos: "0 < \<bar>x\<bar>" using assms by simp
  have "\<lfloor>log 2 \<bar>x\<bar>\<rfloor> < j + 53" using floor_log2_less [OF pos assms(2)] .
  then show ?thesis using assms(3) by (simp add: ulp_exp_def)
qed


lemma nearest64_minus: "nearest64 (- x) = - nearest64 x"
  by (simp add: nearest64_def ulp_exp_minus rne_neg)

lemma nearest64_0: "nearest64 0 = 0"
  using rne_int [of 0] by (simp add: nearest64_def)

lemma nearest64_nonneg:
  assumes "0 \<le> x"
  shows "0 \<le> nearest64 x"
proof -
  have "0 \<le> x / 2 powi ulp_exp x" using assms by simp
  then have "rne 0 \<le> rne (x / 2 powi ulp_exp x)" by (rule rne_mono)
  then have "0 \<le> rne (x / 2 powi ulp_exp x)" using rne_int [of 0] by simp
  then show ?thesis by (simp add: nearest64_def)
qed

lemma nearest64_mono_pos:
  assumes "0 < x" "x \<le> y"
  shows "nearest64 x \<le> nearest64 y"
proof -
  let ?kx = "ulp_exp x" and ?ky = "ulp_exp y"
  have ypos: "0 < y" using assms by simp
  have k: "?kx \<le> ?ky" using assms by (rule ulp_exp_mono)
  show ?thesis
  proof (cases "?kx = ?ky")
    case True
    have "x / 2 powi ?ky \<le> y / 2 powi ?ky" using assms by (simp add: divide_right_mono)
    then have "rne (x / 2 powi ?ky) \<le> rne (y / 2 powi ?ky)" by (rule rne_mono)
    then have "real_of_int (rne (x / 2 powi ?ky)) * 2 powi ?ky
                 \<le> real_of_int (rne (y / 2 powi ?ky)) * 2 powi ?ky"
      by (intro mult_right_mono) simp_all
    then show ?thesis by (simp add: nearest64_def True)
  next
    case False
    then have lt: "?kx < ?ky" using k by simp
    have px: "0 < (2::real) powi ?kx" and py: "0 < (2::real) powi ?ky" by simp_all
    have "x < 2 powi (?kx + 53)" using ulp_exp_upper [of x] assms(1) by simp
    also have "\<dots> = 2 powi 53 * 2 powi ?kx" by (simp add: power_int_add mult.commute)
    finally have "x / 2 powi ?kx \<le> 2 powi 53" using px by (simp add: pos_divide_le_eq)
    then have "x / 2 powi ?kx \<le> real_of_int (2 ^ 53)" by simp
    then have "rne (x / 2 powi ?kx) \<le> rne (real_of_int (2 ^ 53))" by (rule rne_mono)
    then have "rne (x / 2 powi ?kx) \<le> 2 ^ 53" by (simp only: rne_int)
    then have "real_of_int (rne (x / 2 powi ?kx)) \<le> real_of_int (2 ^ 53)" by (simp only: of_int_le_iff)
    then have "real_of_int (rne (x / 2 powi ?kx)) * 2 powi ?kx \<le> real_of_int (2 ^ 53) * 2 powi ?kx"
      by (intro mult_right_mono) simp_all
    then have a: "nearest64 x \<le> 2 powi (?kx + 53)"
      by (simp add: nearest64_def power_int_add mult.commute)
    have b: "(2::real) powi (?kx + 53) \<le> 2 powi (?ky + 52)"
      using lt by (intro power_int_increasing) simp_all
    have "- 1074 < ?ky" using lt ulp_exp_ge [of x] by linarith
    then have "2 powi (?ky + 52) \<le> \<bar>y\<bar>" using ulp_exp_lower [of y] ypos by simp
    then have "2 powi 52 * 2 powi ?ky \<le> y" using ypos by (simp add: power_int_add mult.commute)
    then have "2 powi 52 \<le> y / 2 powi ?ky" using py by (simp add: pos_le_divide_eq)
    then have "real_of_int (2 ^ 52) \<le> y / 2 powi ?ky" by simp
    then have "rne (real_of_int (2 ^ 52)) \<le> rne (y / 2 powi ?ky)" by (rule rne_mono)
    then have "2 ^ 52 \<le> rne (y / 2 powi ?ky)" by (simp only: rne_int)
    then have "real_of_int (2 ^ 52) \<le> real_of_int (rne (y / 2 powi ?ky))" by (simp only: of_int_le_iff)
    then have "real_of_int (2 ^ 52) * 2 powi ?ky \<le> real_of_int (rne (y / 2 powi ?ky)) * 2 powi ?ky"
      by (intro mult_right_mono) simp_all
    then have c: "2 powi (?ky + 52) \<le> nearest64 y"
      by (simp add: nearest64_def power_int_add mult.commute)
    show ?thesis using a b c by linarith
  qed
qed

lemma nearest64_mono:
  assumes "x \<le> y"
  shows "nearest64 x \<le> nearest64 y"
proof -
  consider "0 < x" | "x \<le> 0" "0 \<le> y" | "y < 0" by linarith
  then show ?thesis
  proof cases
    case 1
    then show ?thesis using assms by (rule nearest64_mono_pos)
  next
    case 2
    have "0 \<le> nearest64 (- x)" using 2(1) by (intro nearest64_nonneg) simp
    then have "nearest64 x \<le> 0" by (simp add: nearest64_minus)
    then show ?thesis using nearest64_nonneg [OF 2(2)] by linarith
  next
    case 3
    then have "nearest64 (- y) \<le> nearest64 (- x)" using assms by (intro nearest64_mono_pos) simp_all
    then show ?thesis by (simp add: nearest64_minus)
  qed
qed

lemma nearest64_exact:
  assumes "x = real_of_int m * 2 powi j" "\<bar>x\<bar> < 2 powi (j + 53)" "- 1074 \<le> j"
  shows "nearest64 x = x"
proof (cases "x = 0")
  case True
  then show ?thesis by (simp add: nearest64_0)
next
  case False
  define k where "k = ulp_exp x"
  define d where "d = nat (j - k)"
  have k: "k \<le> j" unfolding k_def using False assms(2,3) by (rule ulp_exp_le)
  have pk: "(2::real) powi k \<noteq> 0" by simp
  have "(2::real) powi j = 2 powi ((j - k) + k)" by simp
  also have "\<dots> = 2 powi (j - k) * 2 powi k" by (rule power_int_add) simp
  also have "(2::real) powi (j - k) = 2 ^ d" using k by (simp add: power_int_nonneg_exp d_def)
  finally have pj: "(2::real) powi j = 2 ^ d * 2 powi k" .
  have "x = real_of_int m * (2 ^ d * 2 powi k)" using assms(1) pj by simp
  also have "\<dots> = real_of_int (m * 2 ^ d) * 2 powi k" by simp
  finally have x: "x = real_of_int (m * 2 ^ d) * 2 powi k" .
  then have "x / 2 powi k = real_of_int (m * 2 ^ d)" using pk by (simp add: field_simps)
  then have "rne (x / 2 powi k) = m * 2 ^ d" by (simp only: rne_int)
  then have "nearest64 x = real_of_int (m * 2 ^ d) * 2 powi k"
    by (simp only: nearest64_def k_def [symmetric])
  then show ?thesis using x by simp
qed

lemma fl64_cases: "fl64 x = PosInf \<or> fl64 x = NegInf \<or> (\<exists>v. fl64 x = Fin v)"
  by (simp add: fl64_def Let_def)

lemma p1024: "0 < (2::real) powi 1024" by simp

lemma fl64_mono:
  assumes "x \<le> y"
  shows "js_le (fl64 x) (fl64 y)"
  using nearest64_mono [OF assms] p1024 unfolding fl64_def Let_def
  by (simp del: power_int_numeral)  

lemma fl64_exact:
  assumes "x = real_of_int m * 2 powi j" "\<bar>x\<bar> < 2 powi (j + 53)" "- 1074 \<le> j" "\<bar>x\<bar> < 2 powi 1024"
  shows "fl64 x = Fin x"
  using nearest64_exact [OF assms(1,2,3)] assms(4) unfolding fl64_def Let_def
  by (simp del: power_int_numeral) linarith?

lemma fl64_int:
  assumes "\<bar>i\<bar> < 2 ^ 53"
  shows "fl64 (real_of_int i) = Fin (real_of_int i)"
proof (rule fl64_exact [where m = i and j = 0])
  have "real_of_int \<bar>i\<bar> < real_of_int (2 ^ 53)" using assms by (simp only: of_int_less_iff)
  then show "\<bar>real_of_int i\<bar> < 2 powi (0 + 53)" by simp
  then show "\<bar>real_of_int i\<bar> < 2 powi 1024" by simp
qed simp_all

lemma fl64_nat:
  assumes "n < 2 ^ 53"
  shows "fl64 (real n) = Fin (real n)"
  using fl64_int [of "int n"] assms by simp

lemma fl64_0: "fl64 0 = Fin 0"
  using fl64_int [of 0] by simp

lemma fl64_1: "fl64 1 = Fin 1"
  using fl64_int [of 1] by simp

lemma fl64_nonneg:
  assumes "0 \<le> x"
  shows "js_le (Fin 0) (fl64 x)"
  using fl64_mono [OF assms] by (simp add: fl64_0)


lemma fl64_overflow:
  assumes "2 powi 1024 \<le> x"
  shows "fl64 x = PosInf"
proof -
  have e1: "nearest64 (2 powi 1024) = 2 powi 1024"
  proof (rule nearest64_exact [where m = "2 ^ 52" and j = 972])
    have "(2::real) powi 1024 = 2 powi (52 + 972)" by simp
    also have "\<dots> = 2 powi 52 * 2 powi 972" by (rule power_int_add) simp
    finally show "(2::real) powi 1024 = real_of_int (2 ^ 52) * 2 powi 972" by simp
    have "(2::real) powi 1024 < 2 powi (972 + 53)" by (intro power_int_strict_increasing) simp_all
    then show "\<bar>(2::real) powi 1024\<bar> < 2 powi (972 + 53)" by simp
  qed simp
  have "nearest64 (2 powi 1024) \<le> nearest64 x" using assms by (rule nearest64_mono)
  then show ?thesis unfolding fl64_def Let_def e1 by simp
qed

section \<open>The sort on ordered numbers\<close>

lemma ordered_simps [simp]:
  "ordered (Fin r)" "ordered PosInf" "ordered NegInf" "\<not> ordered NaN" "\<not> ordered Undefined"
  by (simp_all add: ordered_def)

lemma ordered_fl64 [simp]: "ordered (fl64 x)"
  using fl64_cases [of x] by auto


lemma js_le_trans: "js_le a b \<Longrightarrow> js_le b c \<Longrightarrow> js_le a c"
  by (cases a; cases b; cases c) simp_all

lemma js_le_ordered: "js_le a b \<Longrightarrow> ordered a \<and> ordered b"
  by (cases a; cases b) simp_all

lemma compare_sub_ordered: "ordered a \<Longrightarrow> ordered b \<Longrightarrow> compare_sub a b = js_lt a b"
  by (cases a; cases b) (simp_all add: compare_sub_def js_sub_def)

lemma js_lt_le: "js_lt a b \<Longrightarrow> js_le a b"
  by (cases a; cases b) simp_all

lemma not_js_lt_le: "ordered a \<Longrightarrow> ordered b \<Longrightarrow> \<not> js_lt a b \<Longrightarrow> js_le b a"
  by (cases a; cases b) simp_all

lemma set_insert_sorted: "set (insert_sorted x ys) = insert x (set ys)"
  by (induction ys) auto

lemma sorted_insert_sorted:
  assumes "sorted_wrt js_le ys" "ordered x" "\<forall>y\<in>set ys. ordered y"
  shows "sorted_wrt js_le (insert_sorted x ys)"
  using assms
proof (induction ys)
  case Nil
  then show ?case by simp
next
  case (Cons y ys)
  show ?case
  proof (cases "compare_sub x y")
    case True
    then have "js_lt x y" using Cons.prems by (simp add: compare_sub_ordered)
    then have xy: "js_le x y" by (rule js_lt_le)
    have "\<forall>z\<in>set ys. js_le x z" using Cons.prems(1) xy by (auto intro: js_le_trans)
    then show ?thesis using True Cons.prems(1) xy by simp
  next
    case False
    then have "\<not> js_lt x y" using Cons.prems by (simp add: compare_sub_ordered)
    then have yx: "js_le y x" using Cons.prems by (intro not_js_lt_le) simp_all
    have "sorted_wrt js_le (insert_sorted x ys)" using Cons by simp
    then show ?thesis using False Cons.prems(1) yx by (auto simp: set_insert_sorted)
  qed
qed

lemma foldl_insert_sorted_props:
  assumes "sorted_wrt js_le acc" "\<forall>y\<in>set acc. ordered y" "\<forall>y\<in>set xs. ordered y"
  shows "sorted_wrt js_le (foldl (\<lambda>acc x. insert_sorted x acc) acc xs)
       \<and> set (foldl (\<lambda>acc x. insert_sorted x acc) acc xs) = set acc \<union> set xs"
  using assms
proof (induction xs arbitrary: acc)
  case Nil
  then show ?case by simp
next
  case (Cons x xs)
  have "sorted_wrt js_le (insert_sorted x acc)"
    using Cons.prems by (intro sorted_insert_sorted) simp_all
  moreover have "\<forall>y\<in>set (insert_sorted x acc). ordered y"
    using Cons.prems by (simp add: set_insert_sorted)
  moreover have "\<forall>y\<in>set xs. ordered y" using Cons.prems by simp
  ultimately show ?case using Cons.IH [of "insert_sorted x acc"] by (simp add: set_insert_sorted)
qed

lemma filter_ordered:
  assumes "\<forall>y\<in>set xs. ordered y"
  shows "filter (\<lambda>x. x \<noteq> Undefined) xs = xs" "filter (\<lambda>x. x = Undefined) xs = []"
  using assms by (induction xs) (auto simp: ordered_def)

lemma js_sort_ordered:
  assumes "\<forall>y\<in>set xs. ordered y"
  shows "sorted_wrt js_le (js_sort xs)" "set (js_sort xs) = set xs"
  using foldl_insert_sorted_props [of "[]" xs] assms
  by (simp_all add: js_sort_def filter_ordered [OF assms])


lemma js_sort_nth_mem:
  assumes "\<forall>y\<in>set xs. ordered y" "i < length xs"
  shows "js_sort xs ! i \<in> set xs"
proof -
  have "js_sort xs ! i \<in> set (js_sort xs)" using assms(2) by (simp add: length_js_sort)
  then show ?thesis by (simp add: js_sort_ordered(2) [OF assms(1)])
qed

section \<open>Percentiles and time statistics in double precision\<close>

lemma fl64_between:
  assumes "a \<le> x" "x \<le> b" "fl64 a = Fin a" "fl64 b = Fin b"
  shows "\<exists>v. fl64 x = Fin v \<and> a \<le> v \<and> v \<le> b"
proof -
  have 1: "js_le (Fin a) (fl64 x)" using fl64_mono [OF assms(1)] assms(3) by simp
  have 2: "js_le (fl64 x) (Fin b)" using fl64_mono [OF assms(2)] assms(4) by simp
  show ?thesis using 1 2 by (cases "fl64 x") simp_all
qed

lemma fl64_unit:
  assumes "0 \<le> x" "x \<le> 1"
  shows "\<exists>q. fl64 x = Fin q \<and> 0 \<le> q \<and> q \<le> 1"
  using fl64_between [OF assms fl64_0 fl64_1] .

lemma fl64_le_length:
  assumes "n < 2 ^ 32" "0 \<le> q" "q \<le> 1"
  shows "\<exists>v. fl64 (real n * q) = Fin v \<and> 0 \<le> v \<and> v \<le> real n"
proof -
  have "n < 4294967296" using assms(1) by simp
  then have "n < 9007199254740992" by linarith
  then have "n < (2::nat) ^ 53" by simp
  then have n: "fl64 (real n) = Fin (real n)" by (rule fl64_nat)
  have "real n * q \<le> real n" using assms by (simp add: mult_left_le)
  moreover have "0 \<le> real n * q" using assms by simp
  ultimately show ?thesis using fl64_between [OF _ _ fl64_0 n] by simp
qed

lemma rank64_props:
  assumes "0 < n" "n < 2 ^ 32" "0 \<le> q" "q \<le> 1"
  shows "rank64 n q < n"
    and "js_max (Fin 0) (sub64 (js_ceil (mul64 (Fin (real n)) (Fin q))) (Fin 1)) = Fin (real (rank64 n q))"
proof -
  obtain v where v: "fl64 (real n * q) = Fin v" "0 \<le> v" "v \<le> real n"
    using fl64_le_length [OF assms(2,3,4)] by blast
  have c0: "0 \<le> \<lceil>v\<rceil>" using v(2) by (simp add: le_ceiling_iff)
  have "v \<le> real_of_int (int n)" using v(3) by simp
  then have cn: "\<lceil>v\<rceil> \<le> int n" by (rule ceiling_le)
  show lt: "rank64 n q < n" using c0 cn assms(1) by (simp add: rank64_def v(1))
  have "\<bar>\<lceil>v\<rceil> - 1\<bar> < 2 ^ 53"
  proof -
    have "int n < 4294967296" using assms(2) by simp
    then have "\<bar>\<lceil>v\<rceil> - 1\<bar> < 9007199254740992" using c0 cn by linarith
    then show ?thesis by simp
  qed
  then have r: "fl64 (real_of_int (\<lceil>v\<rceil> - 1)) = Fin (real_of_int (\<lceil>v\<rceil> - 1))" by (rule fl64_int)
  have "sub64 (js_ceil (mul64 (Fin (real n)) (Fin q))) (Fin 1) = fl64 (real_of_int (\<lceil>v\<rceil> - 1))"
    by (simp add: sub64_def mul64_def v(1) js_sub_def)
  then have "js_max (Fin 0) (sub64 (js_ceil (mul64 (Fin (real n)) (Fin q))) (Fin 1))
               = Fin (max 0 (real_of_int (\<lceil>v\<rceil> - 1)))"
    by (simp only: r js_max_Fin)
  also have "max 0 (real_of_int (\<lceil>v\<rceil> - 1)) = real (rank64 n q)"
    by (simp add: rank64_def v(1) max_def)
  finally show "js_max (Fin 0) (sub64 (js_ceil (mul64 (Fin (real n)) (Fin q))) (Fin 1)) = Fin (real (rank64 n q))" .
qed


lemma percentile64_rank:
  assumes "values \<noteq> []" "length values < 2 ^ 32" "0 \<le> q" "q \<le> 1"
  shows "percentile64 values (Fin q) = js_sort values ! rank64 (length values) q"
proof -
  have n: "0 < length values" using assms(1) by simp
  show ?thesis
    unfolding percentile64_def Let_def length_js_sort rank64_props(2) [OF n assms(2,3,4)]
    using rank64_props(1) [OF n assms(2,3,4)] by (simp add: length_js_sort)
qed










section \<open>C4: the time statistics are monotone\<close>





















section \<open>C10: aggregation of GC events\<close>

lemma gc_step_fields:
  "a_scavenges (gc_step a e)
     = a_scavenges a + (if ev_type e = Scavenge \<or> ev_type e = MinorMs then 1 else 0)"
  "a_markCompacts (gc_step a e) = a_markCompacts a + (if ev_type e = MarkCompact then 1 else 0)"
  "a_gcPauseTime (gc_step a e) = js_add (a_gcPauseTime a) (ev_pauseMs e)"
  "a_totalCollected (gc_step a e) = js_add (a_totalCollected a) (ev_collected e)"
  "a_hasNodeFields (gc_step a e) = (a_hasNodeFields a \<or> ev_allocated e \<noteq> None)"
  by (auto simp: gc_step_def Let_def split: option.splits)

lemma foldl_gc_step_fields:
  "a_scavenges (foldl gc_step a es)
     = a_scavenges a + length (filter (\<lambda>e. ev_type e = Scavenge \<or> ev_type e = MinorMs) es)"
  "a_markCompacts (foldl gc_step a es)
     = a_markCompacts a + length (filter (\<lambda>e. ev_type e = MarkCompact) es)"
  "a_gcPauseTime (foldl gc_step a es) = foldl js_add (a_gcPauseTime a) (map ev_pauseMs es)"
  "a_totalCollected (foldl gc_step a es) = foldl js_add (a_totalCollected a) (map ev_collected es)"
  "a_hasNodeFields (foldl gc_step a es)
     = (a_hasNodeFields a \<or> (\<exists>e\<in>set es. ev_allocated e \<noteq> None))"
  by (induction es arbitrary: a) (auto simp: gc_step_fields)

text \<open>
  C10. \<open>aggregateGcStats\<close> counts the events of type scavenge and minor-ms in
  \<open>scavenges\<close> and those of type mark-compact in \<open>markCompacts\<close>, so an unknown event
  changes neither counter; it adds the \<open>pauseMs\<close> and \<open>collected\<close> of every event, in
  order, to \<open>gcPauseTime\<close> and \<open>totalCollected\<close>; and the three optional totals are
  present exactly when some event carries an \<open>allocated\<close> field.
\<close>

theorem aggregateGcStats_counts:
  "scavenges (aggregateGcStats es)
     = length (filter (\<lambda>e. ev_type e = Scavenge \<or> ev_type e = MinorMs) es)
   \<and> markCompacts (aggregateGcStats es) = length (filter (\<lambda>e. ev_type e = MarkCompact) es)
   \<and> (ev_type e = Unknown \<longrightarrow>
        scavenges (aggregateGcStats (es @ [e])) = scavenges (aggregateGcStats es)
        \<and> markCompacts (aggregateGcStats (es @ [e])) = markCompacts (aggregateGcStats es))
   \<and> gcPauseTime (aggregateGcStats (es @ [e]))
       = js_add (gcPauseTime (aggregateGcStats es)) (ev_pauseMs e)
   \<and> totalCollected (aggregateGcStats (es @ [e]))
       = js_add (totalCollected (aggregateGcStats es)) (ev_collected e)
   \<and> gcPauseTime (aggregateGcStats es) = foldl js_add (Fin 0) (map ev_pauseMs es)
   \<and> totalCollected (aggregateGcStats es) = foldl js_add (Fin 0) (map ev_collected es)
   \<and> (totalAllocated (aggregateGcStats es) \<noteq> None \<longleftrightarrow> (\<exists>e\<in>set es. ev_allocated e \<noteq> None))
   \<and> (totalPromoted (aggregateGcStats es) \<noteq> None \<longleftrightarrow> (\<exists>e\<in>set es. ev_allocated e \<noteq> None))
   \<and> (totalSurvived (aggregateGcStats es) \<noteq> None \<longleftrightarrow> (\<exists>e\<in>set es. ev_allocated e \<noteq> None))"
proof -
  have init: "a_scavenges gc_init = 0" "a_markCompacts gc_init = 0"
    "a_gcPauseTime gc_init = Fin 0" "a_totalCollected gc_init = Fin 0"
    "a_hasNodeFields gc_init = False"
    by (simp_all add: gc_init_def)
  have sel: "scavenges (aggregateGcStats xs) = a_scavenges (foldl gc_step gc_init xs)"
    "markCompacts (aggregateGcStats xs) = a_markCompacts (foldl gc_step gc_init xs)"
    "gcPauseTime (aggregateGcStats xs) = a_gcPauseTime (foldl gc_step gc_init xs)"
    "totalCollected (aggregateGcStats xs) = a_totalCollected (foldl gc_step gc_init xs)"
    "totalAllocated (aggregateGcStats xs) \<noteq> None \<longleftrightarrow> a_hasNodeFields (foldl gc_step gc_init xs)"
    "totalPromoted (aggregateGcStats xs) \<noteq> None \<longleftrightarrow> a_hasNodeFields (foldl gc_step gc_init xs)"
    "totalSurvived (aggregateGcStats xs) \<noteq> None \<longleftrightarrow> a_hasNodeFields (foldl gc_step gc_init xs)"
    for xs
    by (simp_all add: aggregateGcStats_def Let_def)
  show ?thesis
    unfolding sel foldl_gc_step_fields init by simp
qed

theorem aggregateGcStats_counts_witness:
  "(let es = [\<lparr> ev_type = Scavenge, ev_pauseMs = Fin 1, ev_collected = Fin 10,
               ev_allocated = None, ev_promoted = None, ev_survived = None \<rparr>,
             \<lparr> ev_type = MinorMs, ev_pauseMs = Fin 2, ev_collected = Fin 20,
               ev_allocated = Some (Fin 5), ev_promoted = None, ev_survived = None \<rparr>];
        e = \<lparr> ev_type = Unknown, ev_pauseMs = Fin 4, ev_collected = Fin 40,
              ev_allocated = None, ev_promoted = None, ev_survived = None \<rparr>
    in scavenges (aggregateGcStats es) = 2 \<and> markCompacts (aggregateGcStats es) = 0
       \<and> ev_type e = Unknown
       \<and> scavenges (aggregateGcStats (es @ [e])) = 2
       \<and> markCompacts (aggregateGcStats (es @ [e])) = 0
       \<and> gcPauseTime (aggregateGcStats (es @ [e])) = Fin 7
       \<and> totalCollected (aggregateGcStats (es @ [e])) = Fin 70
       \<and> (\<exists>x\<in>set es. ev_allocated x \<noteq> None)
       \<and> totalAllocated (aggregateGcStats es) \<noteq> None)"
  using aggregateGcStats_counts [of
      "[\<lparr> ev_type = Scavenge, ev_pauseMs = Fin 1, ev_collected = Fin 10,
          ev_allocated = None, ev_promoted = None, ev_survived = None \<rparr>,
        \<lparr> ev_type = MinorMs, ev_pauseMs = Fin 2, ev_collected = Fin 20,
          ev_allocated = Some (Fin 5), ev_promoted = None, ev_survived = None \<rparr>]"
      "\<lparr> ev_type = Unknown, ev_pauseMs = Fin 4, ev_collected = Fin 40,
         ev_allocated = None, ev_promoted = None, ev_survived = None \<rparr>"]
  by (simp add: Let_def)


section \<open>C6: the stop decision of the adaptive controller\<close>

text \<open>
  C6. \<open>shouldStop\<close> is true exactly when the check has converged with confidence at least
  the target, or the elapsed time has reached \<open>minTime\<close> and the confidence is at least
  \<open>max(target, 80)\<close>. While the time budget lasts, a pass of the loop breaks when
  \<open>shouldStop\<close> is true; when it is false the loop runs the base runner with a budget of
  100 ms, a cap of 10 iterations and the warmup skipped, appends the samples and goes on.
\<close>

theorem shouldStop_decision:
  "shouldStop c target elapsed minT
     = ((converged c \<and> js_ge (conv_confidence c) target)
        \<or> (js_ge elapsed minT \<and> js_ge (conv_confidence c) (js_max target (Fin 80))))
   \<and> (let conv = checkConvergence toFixed (map (\<lambda>s. js_mul s msToNs) allSamples);
           stop = shouldStop conv (lim_targetConfidence limits) elapsed (lim_minTime limits);
           opts = runnerOptions \<lparr> opt_maxTime := Some (Fin 100), opt_maxIterations := Some (Fin 10),
                                  opt_skipWarmup := Some True \<rparr>
       in (stop \<longrightarrow> adaptive_pass toFixed runnerOptions limits allSamples elapsed = Break)
          \<and> (\<not> stop \<longrightarrow> adaptive_pass toFixed runnerOptions limits allSamples elapsed = Batch opts))
   \<and> (let elapsed' = js_sub (now (Suc tick)) (lim_startTime limits);
           conv = checkConvergence toFixed (map (\<lambda>s. js_mul s msToNs) allSamples);
           stop = shouldStop conv (lim_targetConfidence limits) elapsed' (lim_minTime limits);
           opts = runnerOptions \<lparr> opt_maxTime := Some (Fin 100), opt_maxIterations := Some (Fin 10),
                                  opt_skipWarmup := Some True \<rparr>
       in js_lt (js_sub (now tick) (lim_startTime limits)) (lim_maxTime limits) \<longrightarrow>
            (stop \<longrightarrow> collectAdaptive toFixed now runBench runnerOptions limits tick allSamples batches
                        = Some (allSamples, batches))
            \<and> (\<not> stop \<longrightarrow>
                  collectAdaptive toFixed now runBench runnerOptions limits tick allSamples batches
                    = collectAdaptive toFixed now runBench runnerOptions limits (Suc (Suc tick))
                        (allSamples @ runBench opts (length batches)) (batches @ [opts])))"
proof -
  have decision: "shouldStop c target elapsed minT
     = ((converged c \<and> js_ge (conv_confidence c) target)
        \<or> (js_ge elapsed minT \<and> js_ge (conv_confidence c) (js_max target (Fin 80))))"
    by (auto simp: shouldStop_def fallbackThreshold_def Let_def)
  have pass: "adaptive_pass toFixed runnerOptions limits allSamples t
     = (if shouldStop (checkConvergence toFixed (map (\<lambda>s. js_mul s msToNs) allSamples))
             (lim_targetConfidence limits) t (lim_minTime limits)
        then Break
        else Batch (runnerOptions \<lparr> opt_maxTime := Some (Fin 100), opt_maxIterations := Some (Fin 10),
                                    opt_skipWarmup := Some True \<rparr>))" for t
    by (simp add: adaptive_pass_def continueBatch_def continueIterations_def Let_def)
  show ?thesis
    unfolding Let_def
    apply (intro conjI impI)
        apply (rule decision)
       apply (simp add: pass)
      apply (simp add: pass)
     apply (subst collectAdaptive.simps, simp add: pass Let_def)
    apply (subst collectAdaptive.simps, simp add: pass Let_def)
    done
qed

theorem shouldStop_decision_witness:
  "\<not> shouldStop (checkConvergence (\<lambda>x n. []) (map (\<lambda>s. js_mul s msToNs) []))
        (Fin 95) (Fin 0) (Fin 1000)
   \<and> adaptive_pass (\<lambda>x n. [])
        \<lparr> opt_maxTime = None, opt_maxIterations = None, opt_warmup = Some (Fin 5), opt_skipWarmup = None \<rparr>
        \<lparr> lim_minTime = Fin 1000, lim_maxTime = Fin 10000, lim_targetConfidence = Fin 95,
          lim_startTime = Fin 0 \<rparr> [] (Fin 0)
      = Batch \<lparr> opt_maxTime = Some (Fin 100), opt_maxIterations = Some (Fin 10),
                opt_warmup = Some (Fin 5), opt_skipWarmup = Some True \<rparr>
   \<and> shouldStop \<lparr> converged = True, conv_confidence = Fin 100, reason = ''Stable performance pattern'' \<rparr>
        (Fin 95) (Fin 0) (Fin 1000)"
proof -
  have conv: "checkConvergence (\<lambda>x n. []) (map (\<lambda>s. js_mul s msToNs) [])
                = buildProgressResult 0 100"
    by (simp add: checkConvergence_def getWindowSize_def windowSize_def Let_def)
  have no: "\<not> shouldStop (buildProgressResult 0 100) (Fin 95) (Fin 0) (Fin 1000)"
    using shouldStop_decision [of "buildProgressResult 0 100" "Fin 95" "Fin 0" "Fin 1000"]
    by (simp add: buildProgressResult_def js_ge_def)
  show ?thesis
    using no conv
      shouldStop_decision [of
        "\<lparr> converged = True, conv_confidence = Fin 100, reason = ''Stable performance pattern'' \<rparr>"
        "Fin 95" "Fin 0" "Fin 1000" "\<lambda>x n. []" "[]"
        "\<lparr> lim_minTime = Fin 1000, lim_maxTime = Fin 10000, lim_targetConfidence = Fin 95,
          lim_startTime = Fin 0 \<rparr>"
        "\<lparr> opt_maxTime = None, opt_maxIterations = None, opt_warmup = Some (Fin 5), opt_skipWarmup = None \<rparr>"]
    by (simp add: Let_def js_ge_def)
qed

section \<open>C9: configuration errors\<close>

text \<open>
  C9. A matrix with both \<open>baselineDir\<close> and \<open>baselineVariant\<close> set makes \<open>runMatrix\<close>
  fail at once; a matrix run with its inline variants (\<open>runMatrixInline\<close>, which
  \<open>runMatrix\<close> calls when there is no \<open>variantDir\<close>) fails at once when \<open>baselineDir\<close>
  is set; \<open>collectSamples\<close> fails at once when neither \<open>maxTime\<close> nor \<open>maxIterations\<close> is
  set, in particular when both are 0. Each failure is an \<open>Error\<close> and the list of
  benchmark work carried out is empty. An option is set when it is truthy.
\<close>

theorem config_errors_fail_fast:
  "(truthy (m_baselineDir m) \<and> truthy (m_baselineVariant m) \<longrightarrow>
      runMatrix withDir inline m opts
        = (Inl (Error (''BenchMatrix cannot have both 'baselineDir' and 'baselineVariant'' @ [CHR 0x27])), []))
   \<and> (truthy (m_baselineDir m) \<longrightarrow>
        runMatrixInline inline m opts
          = (Inl (Error ''BenchMatrix with inline 'variants' cannot use 'baselineDir'. Use 'variantDir' instead.''), []))
   \<and> (m_variants m \<noteq> None \<and> \<not> truthy (m_variantDir m) \<and> truthy (m_baselineDir m) \<longrightarrow>
        (\<exists>msg. runMatrix withDir inline m opts = (Inl (Error msg), [])))
   \<and> (js_falsy (p_maxIterations p) \<and> js_falsy (p_maxTime p) \<longrightarrow>
        collectSamples runWarmup runSampleLoop p
          = (Inl (Error ''At least one of maxIterations or maxTime must be set''), []))
   \<and> collectSamples runWarmup runSampleLoop (p \<lparr> p_maxTime := Fin 0, p_maxIterations := Fin 0 \<rparr>)
       = (Inl (Error ''At least one of maxIterations or maxTime must be set''), [])"
proof -
  have both: "runMatrix withDir inline m opts
        = (Inl (Error (''BenchMatrix cannot have both 'baselineDir' and 'baselineVariant'' @ [CHR 0x27])), [])"
    if "truthy (m_baselineDir m)" "truthy (m_baselineVariant m)"
    using that by (simp add: runMatrix_def validateBaseline_def)
  have inl: "runMatrixInline inline m opts
          = (Inl (Error ''BenchMatrix with inline 'variants' cannot use 'baselineDir'. Use 'variantDir' instead.''), [])"
    if "truthy (m_baselineDir m)"
    using that by (simp add: runMatrixInline_def)
  have via: "\<exists>msg. runMatrix withDir inline m opts = (Inl (Error msg), [])"
    if "m_variants m \<noteq> None" "\<not> truthy (m_variantDir m)" "truthy (m_baselineDir m)"
  proof (cases "truthy (m_baselineVariant m)")
    case True
    then show ?thesis using both that(3) by blast
  next
    case False
    then have "runMatrix withDir inline m opts = runMatrixInline inline m opts"
      using that by (simp add: runMatrix_def validateBaseline_def)
    then show ?thesis using inl that(3) by simp
  qed
  have coll: "collectSamples runWarmup runSampleLoop q
          = (Inl (Error ''At least one of maxIterations or maxTime must be set''), [])"
    if "js_falsy (p_maxIterations q)" "js_falsy (p_maxTime q)" for q
    using that by (simp add: collectSamples_def)
  have zero: "collectSamples runWarmup runSampleLoop (p \<lparr> p_maxTime := Fin 0, p_maxIterations := Fin 0 \<rparr>)
       = (Inl (Error ''At least one of maxIterations or maxTime must be set''), [])"
    by (rule coll) (simp_all add: js_falsy_def)
  show ?thesis using both inl via coll [of p] zero by blast
qed

theorem config_errors_fail_fast_witness:
  "(let m = \<lparr> m_name = ''M'', m_variantDir = None, m_variants = Some [''fast''], m_cases = None,
              m_casesModule = None, m_baselineDir = Some ''base'', m_baselineVariant = Some ''fast'' \<rparr>;
        p = \<lparr> p_name = ''b'', p_maxTime = Undefined, p_maxIterations = Fin 0, p_warmup = Fin 0,
              p_skipWarmup = False \<rparr>;
        work = (\<lambda>m (opts :: unit). (Inr (), [RunInline]))
    in truthy (m_baselineDir m) \<and> truthy (m_baselineVariant m)
       \<and> snd (runMatrix work work m ()) = []
       \<and> m_variants m \<noteq> None \<and> \<not> truthy (m_variantDir m)
       \<and> snd (runMatrixInline work m ()) = []
       \<and> js_falsy (p_maxIterations p) \<and> js_falsy (p_maxTime p)
       \<and> snd (collectSamples (\<lambda>p. [Fin 1]) (\<lambda>p. [Fin 1]) p) = [])"
  using config_errors_fail_fast [of
      "\<lparr> m_name = ''M'', m_variantDir = None, m_variants = Some [''fast''], m_cases = None,
              m_casesModule = None, m_baselineDir = Some ''base'', m_baselineVariant = Some ''fast'' \<rparr>"
      "\<lambda>m (opts :: unit). (Inr (), [RunInline])" "\<lambda>m (opts :: unit). (Inr (), [RunInline])" "()"
      "\<lparr> p_name = ''b'', p_maxTime = Undefined, p_maxIterations = Fin 0, p_warmup = Fin 0,
              p_skipWarmup = False \<rparr>" "\<lambda>p. [Fin 1]" "\<lambda>p. [Fin 1]"]
  by (simp add: Let_def truthy_def js_falsy_def)


section \<open>Mean, deviation and outliers in double precision\<close>

lemma length_outlier_indices:
  "length (filter (\<lambda>i. 0 \<le> i) (map f (zip samples [0 ..< length samples]))) \<le> length samples"
proof -
  have "length (filter (\<lambda>i. 0 \<le> i) (map f (zip samples [0 ..< length samples])))
          \<le> length (map f (zip samples [0 ..< length samples]))"
    by (rule length_filter_le)
  then show ?thesis by simp
qed

lemma findOutliers64_rate:
  "rate (findOutliers64 samples)
     = div64 (Fin (real (length (indices (findOutliers64 samples))))) (Fin (real (length samples)))"
  by (simp add: findOutliers64_def Let_def)

lemma findOutliers64_indices: "length (indices (findOutliers64 samples)) \<le> length samples"
  unfolding findOutliers64_def Let_def outliers.simps by (rule length_outlier_indices)

lemma rate64_range:
  assumes "samples \<noteq> []"
  shows "js_le (Fin 0) (rate (findOutliers64 samples))" "js_le (rate (findOutliers64 samples)) (Fin 1)"
proof -
  let ?k = "real (length (indices (findOutliers64 samples)))"
  let ?n = "real (length samples)"
  have n: "0 < ?n" using assms by simp
  have k: "?k \<le> ?n" using findOutliers64_indices [of samples] by simp
  have r: "rate (findOutliers64 samples) = fl64 (?k / ?n)"
    unfolding findOutliers64_rate using n by (simp add: div64_def)
  have "0 \<le> ?k / ?n" "?k / ?n \<le> 1" using n k by simp_all
  then obtain q where "fl64 (?k / ?n) = Fin q" "0 \<le> q" "q \<le> 1" using fl64_unit by blast
  then show "js_le (Fin 0) (rate (findOutliers64 samples))" "js_le (rate (findOutliers64 samples)) (Fin 1)"
    by (simp_all add: r)
qed

lemma fl64_half: "fl64 (1 / 2) = Fin (1 / 2)"
  by (rule fl64_exact [where m = 1 and j = "- 1"]) simp_all

lemma percentile64_mem:
  assumes "values \<noteq> []" "length values < 2 ^ 32" "\<forall>y\<in>set values. ordered y" "0 \<le> q" "q \<le> 1"
  shows "percentile64 values (Fin q) \<in> set values"
proof -
  have "0 < length values" using assms(1) by simp
  then have "rank64 (length values) q < length values" using assms(2,4,5) by (rule rank64_props(1))
  then show ?thesis
    unfolding percentile64_rank [OF assms(1,2,4,5)] by (rule js_sort_nth_mem [OF assms(3)])
qed

lemma abs_sub64_nonneg: "js_le (Fin 0) (js_abs (sub64 (Fin x) (Fin m)))"
proof -
  have "sub64 (Fin x) (Fin m) = fl64 (x - m)" by (simp add: sub64_def js_sub_def)
  then show ?thesis using fl64_cases [of "x - m"] by auto
qed

lemma mad64_nonneg:
  assumes "rs \<noteq> []" "length rs < 2 ^ 32"
  shows "js_le (Fin 0) (medianAbsoluteDeviation64 (map Fin rs))"
proof -
  have ne: "map Fin rs \<noteq> []" and len: "length (map Fin rs) < 2 ^ 32" using assms by simp_all
  have ord: "\<forall>y\<in>set (map Fin rs). ordered y" by simp
  have "percentile64 (map Fin rs) (Fin (1 / 2)) \<in> set (map Fin rs)"
    by (rule percentile64_mem [OF ne len ord]) simp_all
  then obtain m where m: "percentile64 (map Fin rs) (Fin (1 / 2)) = Fin m" by auto
  let ?ds = "map (\<lambda>x. js_abs (sub64 x (Fin m))) (map Fin rs)"
  have dnn: "\<forall>y\<in>set ?ds. js_le (Fin 0) y" by (simp add: abs_sub64_nonneg)
  then have dord: "\<forall>y\<in>set ?ds. ordered y" using js_le_ordered by blast
  have dne: "?ds \<noteq> []" and dlen: "length ?ds < 2 ^ 32" using assms by simp_all
  have "percentile64 ?ds (Fin (1 / 2)) \<in> set ?ds"
    by (rule percentile64_mem [OF dne dlen dord]) simp_all
  then have "js_le (Fin 0) (percentile64 ?ds (Fin (1 / 2)))" using dnn by blast
  then show ?thesis
    unfolding medianAbsoluteDeviation64_def Let_def by (simp add: fl64_half m)
qed

lemma add64_nonneg:
  assumes "js_le (Fin 0) a" "js_le (Fin 0) b"
  shows "js_le (Fin 0) (add64 a b)"
proof (cases a)
  case a: (Fin x)
  show ?thesis
  proof (cases b)
    case (Fin y)
    then have "0 \<le> x + y" using assms a by simp
    then show ?thesis using a Fin by (simp add: add64_def fl64_nonneg)
  qed (use assms a in \<open>simp_all add: add64_def\<close>)
qed (use assms in \<open>cases b; simp_all add: add64_def\<close>)+

lemma sq64_nonneg:
  assumes "ordered d"
  shows "js_le (Fin 0) (sq64 d)"
  using assms by (cases d) (simp_all add: sq64_def mul64_def fl64_nonneg)

lemma div64_nonneg:
  assumes "js_le (Fin 0) a" "0 < c"
  shows "js_le (Fin 0) (div64 a (Fin c))"
  using assms by (cases a) (simp_all add: div64_def fl64_nonneg)

lemma sqrt64_nonneg:
  assumes "js_le (Fin 0) a"
  shows "js_le (Fin 0) (sqrt64 a)"
  using assms by (cases a) (simp_all add: sqrt64_def fl64_nonneg)

lemma foldl_squares64_nonneg:
  assumes "js_le (Fin 0) a"
  shows "js_le (Fin 0) (foldl (\<lambda>sum x. add64 sum (sq64 (sub64 x (Fin m)))) a (map Fin rs))"
  using assms
proof (induction rs arbitrary: a)
  case Nil
  then show ?case by simp
next
  case (Cons r rs)
  have "sub64 (Fin r) (Fin m) = fl64 (r - m)" by (simp add: sub64_def js_sub_def)
  then have "ordered (sub64 (Fin r) (Fin m))" by simp
  then have "js_le (Fin 0) (add64 a (sq64 (sub64 (Fin r) (Fin m))))"
    using Cons.prems by (intro add64_nonneg sq64_nonneg)
  then show ?case using Cons.IH by simp
qed

lemma standardDeviation64_nonneg:
  assumes "average64 (map Fin rs) = Fin m"
  shows "js_le (Fin 0) (standardDeviation64 (map Fin rs))"
proof (cases "length rs \<le> 1")
  case True
  then show ?thesis by (simp add: standardDeviation64_def)
next
  case False
  then have n: "0 < real (length rs) - 1" by simp
  have "js_le (Fin 0) (foldl (\<lambda>sum x. add64 sum (sq64 (sub64 x (Fin m)))) (Fin 0) (map Fin rs))"
    by (rule foldl_squares64_nonneg) simp
  then have "js_le (Fin 0) (div64 (foldl (\<lambda>sum x. add64 sum (sq64 (sub64 x (Fin m)))) (Fin 0) (map Fin rs))
                                  (Fin (real (length rs) - 1)))"
    using n by (rule div64_nonneg)
  then have "js_le (Fin 0) (sqrt64 (div64 (foldl (\<lambda>sum x. add64 sum (sq64 (sub64 x (Fin m)))) (Fin 0) (map Fin rs))
                                  (Fin (real (length rs) - 1))))"
    by (rule sqrt64_nonneg)
  then show ?thesis using False by (simp add: standardDeviation64_def Let_def assms)
qed

lemma cv64_nonneg:
  assumes "average64 (map Fin rs) = Fin m" "0 \<le> m"
  shows "js_le (Fin 0) (coefficientOfVariation64 (map Fin rs))"
proof (cases "m = 0")
  case True
  then show ?thesis by (simp add: coefficientOfVariation64_def assms(1))
next
  case False
  then have m: "0 < m" using assms(2) by simp
  have "js_le (Fin 0) (div64 (standardDeviation64 (map Fin rs)) (Fin m))"
    using standardDeviation64_nonneg [OF assms(1)] m by (rule div64_nonneg)
  then show ?thesis using False by (simp add: coefficientOfVariation64_def assms(1) Let_def)
qed

lemmas fl64_small =
  fl64_0 fl64_1 fl64_int [of 2, simplified] fl64_int [of 3, simplified] fl64_int [of 6, simplified]
  fl64_int [of "- 1", simplified] fl64_int [of "- 2", simplified] fl64_int [of "- 3", simplified]
  fl64_int [of "- 6", simplified]

lemma fl64_minus_half: "fl64 (- (1 / 2)) = Fin (- (1 / 2))"
  by (rule fl64_exact [where m = "- 1" and j = "- 1"]) simp_all

lemma fl64_2_1023: "fl64 (2 ^ 1023) = Fin (2 ^ 1023)"
proof (rule fl64_exact [where m = "2 ^ 52" and j = 971])
  have "(2::real) ^ 1023 = 2 powi 1023" by simp
  also have "\<dots> = 2 powi (52 + 971)" by simp
  also have "\<dots> = 2 powi 52 * 2 powi 971" by (rule power_int_add) simp
  finally show "(2::real) ^ 1023 = real_of_int (2 ^ 52) * 2 powi 971" by simp
  have "(2::real) powi 1023 < 2 powi (971 + 53)" by (intro power_int_strict_increasing) simp_all
  then show "\<bar>(2::real) ^ 1023\<bar> < 2 powi (971 + 53)" by simp
  have "(2::real) powi 1023 < 2 powi 1024" by (intro power_int_strict_increasing) simp_all
  then show "\<bar>(2::real) ^ 1023\<bar> < 2 powi 1024" by simp
qed simp

lemma fl64_2_1024: "fl64 (2 * 2 ^ 1023) = PosInf"
  by (rule fl64_overflow) simp

lemma ceiling_half: "\<lceil>1 / 2 :: real\<rceil> = 1"
  by (simp add: ceiling_eq_iff)

lemma average64_overflow: "average64 [Fin (2 ^ 1023), Fin (2 ^ 1023)] = PosInf"
  by (simp add: average64_def add64_def div64_def fl64_2_1023 fl64_2_1024 del: power_numeral)

lemma cv64_overflow: "coefficientOfVariation64 [Fin (2 ^ 1023), Fin (2 ^ 1023)] = NaN"
  by (simp add: coefficientOfVariation64_def standardDeviation64_def average64_overflow Let_def
      sub64_def js_sub_def sq64_def mul64_def add64_def div64_def sqrt64_def del: power_numeral)

lemma cv64_negative: "coefficientOfVariation64 [Fin (- 1), Fin (- 2), Fin (- 3)] = Fin (- (1 / 2))"
  by (simp add: coefficientOfVariation64_def standardDeviation64_def average64_def Let_def
      sub64_def js_sub_def sq64_def mul64_def add64_def div64_def sqrt64_def fl64_small fl64_minus_half)

section \<open>C8: ranges of the variability measures\<close>

text \<open>
  C8 (as amended), in double precision. For every non-empty sample array, whatever its
  values, the outlier rate of \<open>findOutliers\<close> lies in \<open>[0, 1]\<close>. For every non-empty array
  of finite samples (fewer than \<open>2 ^ 32\<close>) the median absolute deviation is at least 0.
  For every array of finite samples whose mean, as \<open>average\<close> computes it, is a finite
  number that is not negative, the coefficient of variation is at least 0.
\<close>

theorem variability_ranges:
  "(samples \<noteq> [] \<longrightarrow>
      js_le (Fin 0) (rate (findOutliers64 samples)) \<and> js_le (rate (findOutliers64 samples)) (Fin 1))
   \<and> (rs \<noteq> [] \<and> length rs < 2 ^ 32 \<longrightarrow> js_le (Fin 0) (medianAbsoluteDeviation64 (map Fin rs)))
   \<and> (average64 (map Fin rs) = Fin m \<and> 0 \<le> m \<longrightarrow>
        js_le (Fin 0) (coefficientOfVariation64 (map Fin rs)))"
  using rate64_range [of samples] mad64_nonneg [of rs] cv64_nonneg [of rs m] by blast

theorem variability_ranges_witness:
  "[Fin 1, Fin 2, Fin 100] \<noteq> []
   \<and> js_le (Fin 0) (rate (findOutliers64 [Fin 1, Fin 2, Fin 100]))
   \<and> js_le (rate (findOutliers64 [Fin 1, Fin 2, Fin 100])) (Fin 1)
   \<and> [1, 2, 3] \<noteq> ([] :: real list) \<and> length [1, 2, 3 :: real] < 2 ^ 32
   \<and> js_le (Fin 0) (medianAbsoluteDeviation64 (map Fin [1, 2, 3]))
   \<and> average64 (map Fin [1, 2, 3]) = Fin 2 \<and> (0 :: real) \<le> 2
   \<and> js_le (Fin 0) (coefficientOfVariation64 (map Fin [1, 2, 3]))"
proof -
  have av: "average64 (map Fin [1, 2, 3]) = Fin 2"
    by (simp add: average64_def add64_def div64_def fl64_small)
  show ?thesis
    using variability_ranges [of "[Fin 1, Fin 2, Fin 100]" "[1, 2, 3]" 2] av by simp
qed

text \<open>
  C8 as stated fails on the empty array, where the rate is \<open>0 / 0\<close> and the median
  absolute deviation is \<open>undefined\<close>; on a non-finite sample; on samples of negative
  mean, where the coefficient of variation is negative; and on samples whose sum
  overflows, where the mean is \<open>Infinity\<close> and the coefficient of variation is NaN.
\<close>

theorem variability_ranges_counterexample:
  "rate (findOutliers64 []) = NaN
   \<and> \<not> js_le (Fin 0) (rate (findOutliers64 []))
   \<and> \<not> js_le (Fin 0) (coefficientOfVariation64 [])
   \<and> medianAbsoluteDeviation64 [] = Undefined
   \<and> \<not> js_le (Fin 0) (medianAbsoluteDeviation64 [])
   \<and> medianAbsoluteDeviation64 [PosInf] = NaN
   \<and> coefficientOfVariation64 [Fin (- 1), Fin (- 2), Fin (- 3)] = Fin (- (1 / 2))
   \<and> \<not> js_le (Fin 0) (coefficientOfVariation64 [Fin (- 1), Fin (- 2), Fin (- 3)])
   \<and> coefficientOfVariation64 [Fin (2 ^ 1023), Fin (2 ^ 1023)] = NaN
   \<and> \<not> js_le (Fin 0) (coefficientOfVariation64 [Fin (2 ^ 1023), Fin (2 ^ 1023)])"
proof -
  have rate: "rate (findOutliers64 []) = NaN"
    by (simp add: findOutliers64_def Let_def div64_def)
  have cv0: "coefficientOfVariation64 [] = NaN"
    by (simp add: coefficientOfVariation64_def standardDeviation64_def average64_def div64_def Let_def)
  have mad0: "medianAbsoluteDeviation64 [] = Undefined"
    by (simp add: medianAbsoluteDeviation64_def percentile64_def js_sort_def mul64_def sub64_def
        js_sub_def fl64_half fl64_small Let_def)
  have mad1: "medianAbsoluteDeviation64 [PosInf] = NaN"
    by (simp add: medianAbsoluteDeviation64_def percentile64_def js_sort_def mul64_def sub64_def
        js_sub_def fl64_half fl64_small Let_def ceiling_half)
  show ?thesis
    unfolding rate cv0 mad0 mad1 cv64_negative cv64_overflow by simp
qed


section \<open>The bootstrap comparator\<close>

lemma sort_replicate: "sort (replicate m (x::real)) = replicate m x"
  by (rule sorted_sort_id) (simp add: sorted_replicate)

lemma percentile_replicate_Fin:
  assumes "0 < m" "0 \<le> q" "q \<le> 1"
  shows "percentile (replicate m (Fin x)) (Fin q) = Fin x"
proof -
  have ne: "replicate m x \<noteq> []" using assms(1) by simp
  have "nat (max 0 (\<lceil>real (length (replicate m x)) * q\<rceil> - 1)) < m"
    using nearest_rank_index [of m q] assms by simp
  then show ?thesis
    using percentile_Fin [OF ne assms(2,3)] by (simp add: sort_replicate map_replicate)
qed

lemma insert_sorted_PosInf:
  "insert_sorted PosInf (replicate m PosInf) = replicate (Suc m) PosInf"
  by (induction m) (simp_all add: compare_sub_def js_sub_def)

lemma foldl_insert_sorted_PosInf:
  "foldl (\<lambda>acc x. insert_sorted x acc) (replicate j PosInf) (replicate m PosInf)
     = replicate (j + m) PosInf"
proof (induction m arbitrary: j)
  case 0
  show ?case by simp
next
  case (Suc m)
  show ?case using Suc.IH [of "Suc j"] by (simp add: insert_sorted_PosInf)
qed

lemma js_sort_PosInf: "js_sort (replicate m PosInf) = replicate m PosInf"
  using foldl_insert_sorted_PosInf [of 0 m] by (simp add: js_sort_def)

lemma percentile_replicate_PosInf:
  assumes "0 < m" "0 \<le> q" "q \<le> 1"
  shows "percentile (replicate m PosInf) (Fin q) = PosInf"
proof -
  have ne: "replicate m PosInf \<noteq> []" using assms(1) by simp
  have "nat (max 0 (\<lceil>real (length (replicate m PosInf)) * q\<rceil> - 1)) < m"
    using nearest_rank_index [of m q] assms by simp
  then show ?thesis
    using percentile_index [OF ne assms(2,3)] by (simp add: js_sort_PosInf)
qed

lemma default_interval:
  "computeInterval ds default_confidence
     = (percentile ds (Fin (25 / 1000)), percentile ds (Fin (975 / 1000)))"
  by (simp add: computeInterval_def default_confidence_def js_sub_def Let_def)

section \<open>C1: the direction rule\<close>

text \<open>
  C1 (as amended). The direction of a \<open>DifferenceCI\<close> is \<open>uncertain\<close> exactly when the
  interval does not exclude 0, that is, when neither \<open>ci.lower > 0\<close> nor \<open>ci.upper < 0\<close>
  holds. When the interval excludes 0 the direction is \<open>faster\<close> if the observed percent
  is below 0 and \<open>slower\<close> otherwise; so it is \<open>faster\<close> when \<open>ci.upper < 0\<close> and the
  observed percent is negative, and \<open>slower\<close> when \<open>ci.lower > 0\<close> and the observed
  percent is positive.
\<close>

theorem direction_rule:
  "(let r = bootstrapDifferenceCI rnd baseline current options;
        lower = fst (ci r); upper = snd (ci r);
        excludesZero = (js_gt lower (Fin 0) \<or> js_lt upper (Fin 0))
    in (direction r = Uncertain \<longleftrightarrow> \<not> excludesZero)
       \<and> (direction r = Faster \<longleftrightarrow> excludesZero \<and> js_lt (percent r) (Fin 0))
       \<and> (direction r = Slower \<longleftrightarrow> excludesZero \<and> \<not> js_lt (percent r) (Fin 0))
       \<and> (js_lt upper (Fin 0) \<and> js_lt (percent r) (Fin 0) \<longrightarrow> direction r = Faster)
       \<and> (js_gt lower (Fin 0) \<and> js_gt (percent r) (Fin 0) \<longrightarrow> direction r = Slower))"
proof -
  define r where "r = bootstrapDifferenceCI rnd baseline current options"
  define ex where "ex = (js_gt (fst (ci r)) (Fin 0) \<or> js_lt (snd (ci r)) (Fin 0))"
  have dir: "direction r = (if ex then (if js_lt (percent r) (Fin 0) then Faster else Slower)
                            else Uncertain)"
    unfolding ex_def r_def bootstrapDifferenceCI_def Let_def by simp
  have pos: "js_gt (percent r) (Fin 0) \<Longrightarrow> \<not> js_lt (percent r) (Fin 0)"
    by (cases "percent r") (simp_all add: js_gt_def)
  have "(direction r = Uncertain \<longleftrightarrow> \<not> ex)
       \<and> (direction r = Faster \<longleftrightarrow> ex \<and> js_lt (percent r) (Fin 0))
       \<and> (direction r = Slower \<longleftrightarrow> ex \<and> \<not> js_lt (percent r) (Fin 0))
       \<and> (js_lt (snd (ci r)) (Fin 0) \<and> js_lt (percent r) (Fin 0) \<longrightarrow> direction r = Faster)
       \<and> (js_gt (fst (ci r)) (Fin 0) \<and> js_gt (percent r) (Fin 0) \<longrightarrow> direction r = Slower)"
    using pos by (auto simp: dir ex_def)
  then show ?thesis unfolding Let_def r_def ex_def .
qed

text \<open>
  The draws used below: the first two of every four are \<open>0.5\<close>, the other two \<open>0\<close>.
  On the samples \<open>[1, 3]\<close> every resample of the baseline is then \<open>[3, 3]\<close> and every
  resample of the current samples is \<open>[1, 1]\<close>.
\<close>

lemma skewed_diffs:
  "k mod 4 = 0 \<Longrightarrow>
   bootstrap_diffs (\<lambda>i. if i mod 4 < 2 then 1 / 2 else 0) k [Fin 1, Fin 3] [Fin 1, Fin 3] m
     = replicate m (Fin (- (200 / 3)))"
proof (induction m arbitrary: k)
  case 0
  show ?case by simp
next
  case (Suc m)
  have r: "k mod 4 = 0" "(Suc k) mod 4 = 1" "(Suc (Suc k)) mod 4 = 2"
    "(Suc (Suc (Suc k))) mod 4 = 3" "(Suc (Suc (Suc (Suc k)))) mod 4 = 0"
    "(1 + k) mod 4 = 1" "(2 + k) mod 4 = 2" "(3 + k) mod 4 = 3"
    "(k + 1) mod 4 = 1" "(k + 2) mod 4 = 2" "(k + 3) mod 4 = 3"
    using Suc.prems by presburger+
  have resB: "createResample (\<lambda>i. if i mod 4 < 2 then 1 / 2 else 0) k [Fin 1, Fin 3]
                = [Fin 3, Fin 3]"
    by (simp add: createResample_def r Let_def)
  have resC: "createResample (\<lambda>i. if i mod 4 < 2 then 1 / 2 else 0) (Suc (Suc k)) [Fin 1, Fin 3]
                = [Fin 1, Fin 1]"
    by (simp add: createResample_def r Let_def)
  have medB: "percentile [Fin 3, Fin 3] (Fin (1 / 2)) = Fin 3"
    using percentile_replicate_Fin [of 2 "1 / 2" 3] by (simp add: numeral_2_eq_2)
  have medC: "percentile [Fin 1, Fin 1] (Fin (1 / 2)) = Fin 1"
    using percentile_replicate_Fin [of 2 "1 / 2" 1] by (simp add: numeral_2_eq_2)
  show ?case
    by (simp add: Let_def resB resC medB medC Suc.IH [OF r(5)] js_sub_def)
qed

lemma skewed_result:
  "bootstrapDifferenceCI (\<lambda>i. if i mod 4 < 2 then 1 / 2 else 0)
     [Fin 1, Fin 3] [Fin 1, Fin 3] \<lparr> resamples = None, confidence = None \<rparr>
   = \<lparr> percent = Fin 0, ci = (Fin (- (200 / 3)), Fin (- (200 / 3))), direction = Slower \<rparr>"
proof -
  let ?rnd = "\<lambda>i::nat. if i mod 4 < 2 then (1::real) / 2 else 0"
  have d: "bootstrap_diffs ?rnd 0 [Fin 1, Fin 3] [Fin 1, Fin 3] bootstrapSamples
             = replicate bootstrapSamples (Fin (- (200 / 3)))"
    by (rule skewed_diffs) simp
  have n: "0 < bootstrapSamples" by (simp add: bootstrapSamples_def)
  have med: "percentile [Fin 1, Fin 3] (Fin (1 / 2)) = Fin 1"
    using percentile_Fin [of "[1, 3]" "1 / 2"] by simp
  have lo: "percentile (replicate bootstrapSamples (Fin (- (200 / 3)))) (Fin (1 / 40)) = Fin (- (200 / 3))"
    by (rule percentile_replicate_Fin [OF n]) simp_all
  have hi: "percentile (replicate bootstrapSamples (Fin (- (200 / 3)))) (Fin (39 / 40)) = Fin (- (200 / 3))"
    by (rule percentile_replicate_Fin [OF n]) simp_all
  show ?thesis
    unfolding bootstrapDifferenceCI_def Let_def
    by (simp add: d default_interval lo hi med js_sub_def js_gt_def)
qed

theorem direction_rule_witness:
  "(let r = bootstrapDifferenceCI (\<lambda>i. 0) [Fin 2] [Fin 1] \<lparr> resamples = Some 2, confidence = None \<rparr>
    in js_lt (snd (ci r)) (Fin 0) \<and> js_lt (percent r) (Fin 0) \<and> direction r = Faster)
   \<and> (let r = bootstrapDifferenceCI (\<lambda>i. 0) [Fin 1] [Fin 2] \<lparr> resamples = Some 2, confidence = None \<rparr>
      in js_gt (fst (ci r)) (Fin 0) \<and> js_gt (percent r) (Fin 0) \<and> direction r = Slower)"
proof -
  have m: "percentile [Fin a] (Fin (1 / 2)) = Fin a" for a
    by (rule percentile_single) simp_all
  have p: "percentile [Fin a, Fin a] (Fin q) = Fin a" if "0 \<le> q" "q \<le> 1" for a q
    using percentile_replicate_Fin [of 2 q a] that by (simp add: numeral_2_eq_2)
  have d1: "bootstrap_diffs (\<lambda>i. 0) 0 [Fin 2] [Fin 1] 2 = [Fin (- 50), Fin (- 50)]"
    by (simp add: numeral_2_eq_2 createResample_def m js_sub_def Let_def)
  have d2: "bootstrap_diffs (\<lambda>i. 0) 0 [Fin 1] [Fin 2] 2 = [Fin 100, Fin 100]"
    by (simp add: numeral_2_eq_2 createResample_def m js_sub_def Let_def)
  have c1: "ci (bootstrapDifferenceCI (\<lambda>i. 0) [Fin 2] [Fin 1] \<lparr> resamples = Some 2, confidence = None \<rparr>)
              = (Fin (- 50), Fin (- 50))"
    unfolding bootstrapDifferenceCI_def Let_def by (simp add: d1 default_interval p)
  have c2: "ci (bootstrapDifferenceCI (\<lambda>i. 0) [Fin 1] [Fin 2] \<lparr> resamples = Some 2, confidence = None \<rparr>)
              = (Fin 100, Fin 100)"
    unfolding bootstrapDifferenceCI_def Let_def by (simp add: d2 default_interval p)
  have p1: "percent (bootstrapDifferenceCI (\<lambda>i. 0) [Fin 2] [Fin 1] \<lparr> resamples = Some 2, confidence = None \<rparr>)
              = Fin (- 50)"
    unfolding bootstrapDifferenceCI_def Let_def by (simp add: m js_sub_def)
  have p2: "percent (bootstrapDifferenceCI (\<lambda>i. 0) [Fin 1] [Fin 2] \<lparr> resamples = Some 2, confidence = None \<rparr>)
              = Fin 100"
    unfolding bootstrapDifferenceCI_def Let_def by (simp add: m js_sub_def)
  show ?thesis
    using direction_rule [of "\<lambda>i. 0" "[Fin 2]" "[Fin 1]" "\<lparr> resamples = Some 2, confidence = None \<rparr>"]
      direction_rule [of "\<lambda>i. 0" "[Fin 1]" "[Fin 2]" "\<lparr> resamples = Some 2, confidence = None \<rparr>"]
    unfolding Let_def c1 c2 p1 p2 by (simp add: js_gt_def)
qed

text \<open>
  C1 as stated fails when the sign of the observed percent and the side of the interval
  disagree. With the default options, the samples \<open>[1, 3]\<close> on both sides and
  the draws above, the observed percent is 0 and the interval is
  \<open>[-66.7, -66.7]\<close>, strictly below 0, but the direction is \<open>slower\<close>, not \<open>faster\<close>.
\<close>

theorem direction_rule_counterexample:
  "(let r = bootstrapDifferenceCI (\<lambda>i. if i mod 4 < 2 then 1 / 2 else 0)
              [Fin 1, Fin 3] [Fin 1, Fin 3] \<lparr> resamples = None, confidence = None \<rparr>
    in js_lt (snd (ci r)) (Fin 0) \<and> direction r \<noteq> Faster \<and> direction r = Slower
       \<and> \<not> js_gt (fst (ci r)) (Fin 0))"
  by (simp add: skewed_result js_gt_def)

section \<open>C2: a baseline whose median is 0\<close>

lemma zero_baseline_diffs:
  assumes "\<forall>i. 0 \<le> rnd i \<and> rnd i < 1"
  shows "bootstrap_diffs rnd k [Fin 0] [Fin 1] m = replicate m PosInf"
proof (induction m arbitrary: k)
  case 0
  show ?case by simp
next
  case (Suc m)
  have fl: "\<lfloor>rnd i\<rfloor> = 0" for i using assms by (simp add: floor_eq_iff)
  have res: "createResample rnd i [Fin v] = [Fin v]" for i v
    using assms by (simp add: createResample_def fl Let_def)
  have med: "percentile [Fin v] (Fin (1 / 2)) = Fin v" for v
    by (rule percentile_single) simp_all
  show ?case by (simp add: Let_def res med Suc.IH js_sub_def)
qed

text \<open>
  C2 says that for a baseline whose median is 0 the comparator returns with percent 0
  and direction \<open>uncertain\<close>. The code returns, since it has no failing path, but not
  with these values: for the baseline \<open>[0]\<close> and the current samples \<open>[1]\<close>, with the
  default options and any draws in \<open>[0, 1)\<close>, the percent is
  \<open>(1 - 0) / 0 * 100 = Infinity\<close>, every resampled difference is \<open>Infinity\<close> too, and
  the direction is \<open>slower\<close>.
\<close>

theorem zero_baseline_result:
  assumes "\<forall>i. 0 \<le> rnd i \<and> rnd i < 1"
  shows "bootstrapDifferenceCI rnd [Fin 0] [Fin 1] \<lparr> resamples = None, confidence = None \<rparr>
           = \<lparr> percent = PosInf, ci = (PosInf, PosInf), direction = Slower \<rparr>"
proof -
  have n: "0 < bootstrapSamples" by (simp add: bootstrapSamples_def)
  have med: "percentile [Fin v] (Fin (1 / 2)) = Fin v" for v
    by (rule percentile_single) simp_all
  have lo: "percentile (replicate bootstrapSamples PosInf) (Fin (1 / 40)) = PosInf"
    by (rule percentile_replicate_PosInf [OF n]) simp_all
  have hi: "percentile (replicate bootstrapSamples PosInf) (Fin (39 / 40)) = PosInf"
    by (rule percentile_replicate_PosInf [OF n]) simp_all
  show ?thesis
    unfolding bootstrapDifferenceCI_def Let_def
    by (simp add: zero_baseline_diffs [OF assms] default_interval lo hi med js_sub_def js_gt_def)
qed

theorem zero_baseline_result_witness:
  "(\<forall>i::nat. (0::real) \<le> 0 \<and> (0::real) < 1)
   \<and> percent (bootstrapDifferenceCI (\<lambda>i. 0) [Fin 0] [Fin 1] \<lparr> resamples = None, confidence = None \<rparr>)
       = PosInf
   \<and> direction (bootstrapDifferenceCI (\<lambda>i. 0) [Fin 0] [Fin 1] \<lparr> resamples = None, confidence = None \<rparr>)
       = Slower"
  using zero_baseline_result [of "\<lambda>i. 0"] by simp


section \<open>The convergence check\<close>

lemma foldl_js_add_Fin: "foldl js_add (Fin a) (map Fin rs) = Fin (a + sum_list rs)"
  by (induction rs arbitrary: a) (simp_all add: add.assoc)

lemma checkConvergence_enough:
  "2 * getWindowSize xs \<le> length xs \<Longrightarrow>
   checkConvergence toFixed xs = buildConvergence toFixed (getStability xs (getWindowSize xs))"
  by (simp add: checkConvergence_def Let_def mult.commute)

lemma uniform_impact:
  assumes "0 < k"
  shows "getOutlierImpact (replicate k (Fin c)) = (Fin 0, 0)"
proof -
  have ne: "length (replicate k (Fin c)) \<noteq> 0" using assms by simp
  have p50: "percentile (replicate k (Fin c)) (Fin 0.5) = Fin c"
    by (rule percentile_replicate_Fin [OF assms]) simp_all
  have p75: "percentile (replicate k (Fin c)) (Fin 0.75) = Fin c"
    by (rule percentile_replicate_Fin [OF assms]) simp_all
  have thr: "js_add (Fin c) (js_mul (Fin 1.5) (js_sub (Fin c) (Fin c))) = Fin c"
    by (simp add: js_sub_def)
  have loop: "foldl (\<lambda>(excess, cnt) sample.
                 if js_gt sample (Fin c) then (js_add excess (js_sub sample (Fin c)), Suc cnt)
                 else (excess, cnt)) (e, i) (replicate n (Fin c)) = (e, i)" for e i n
    by (induction n) (simp_all add: js_gt_def)
  have total: "foldl js_add (Fin 0) (replicate k (Fin c)) = Fin (real k * c)"
    using foldl_js_add_Fin [of 0 "replicate k c"] by (simp add: sum_list_replicate)
  show ?thesis
    unfolding getOutlierImpact_def Let_def p50 p75 thr loop total
    using ne by (auto simp: js_gt_def)
qed

text \<open>
  Stable samples converge. The check reads the last \<open>2W\<close> samples. When their mean is
  positive and their relative standard deviation is below 1 percent, the median of each
  window of \<open>W\<close> samples lies within 2 percent of the mean, because at least half of a
  window lies on either side of its median, and the outlier impact of each window is
  below 5 percent, because the absolute deviations are bounded by the squared ones. So
  the median drift is below \<open>4 / 98\<close> and the impact drift below 5 percent.
\<close>

lemma sqdev_nonneg: "0 \<le> sqdev m ys"
  unfolding sqdev_def by (rule sum_list_nonneg) auto

lemma sqdev_append: "sqdev m (xs @ ys) = sqdev m xs + sqdev m ys"
  by (simp add: sqdev_def)

lemma absdev_append: "absdev m (xs @ ys) = absdev m xs + absdev m ys"
  by (simp add: absdev_def)

lemma sqdev_ge_const:
  assumes "\<forall>x\<in>set xs. t * t \<le> (x - m) * (x - m)"
  shows "real (length xs) * (t * t) \<le> sqdev m xs"
  using assms by (induction xs) (simp_all add: sqdev_def algebra_simps)

lemma sqdev_mset: "mset xs = mset ys \<Longrightarrow> sqdev m xs = sqdev m ys"
proof -
  assume eq: "mset xs = mset ys"
  have "sqdev m xs = sum_mset (image_mset (\<lambda>y. (y - m) * (y - m)) (mset xs))"
    unfolding sqdev_def by (simp flip: sum_mset_sum_list)
  also have "\<dots> = sum_mset (image_mset (\<lambda>y. (y - m) * (y - m)) (mset ys))" by (simp add: eq)
  also have "\<dots> = sqdev m ys" unfolding sqdev_def by (simp flip: sum_mset_sum_list)
  finally show ?thesis .
qed

lemma sqdev_sort: "sqdev m (sort ys) = sqdev m ys"
  by (rule sqdev_mset) simp

lemma upper_tail:
  assumes "sorted s" "k < length s" "0 \<le> t" "m + t \<le> s ! k"
  shows "real (length s - k) * (t * t) \<le> sqdev m s"
proof -
  have "\<forall>x\<in>set (drop k s). t * t \<le> (x - m) * (x - m)"
  proof
    fix x assume "x \<in> set (drop k s)"
    then obtain i where i: "i < length (drop k s)" "x = drop k s ! i" by (auto simp: in_set_conv_nth)
    then have "x = s ! (k + i)" using assms(2) by simp
    moreover have "s ! k \<le> s ! (k + i)" using assms(1) i(1) by (intro sorted_nth_mono) simp_all
    ultimately have "t \<le> x - m" using assms(4) by linarith
    then show "t * t \<le> (x - m) * (x - m)" using assms(3) by (intro mult_mono) simp_all
  qed
  then have "real (length (drop k s)) * (t * t) \<le> sqdev m (drop k s)" by (rule sqdev_ge_const)
  moreover have "sqdev m s = sqdev m (take k s) + sqdev m (drop k s)"
    using sqdev_append [of m "take k s" "drop k s"] by simp
  ultimately show ?thesis using sqdev_nonneg [of m "take k s"] by simp
qed

lemma lower_tail:
  assumes "sorted s" "k < length s" "0 \<le> t" "s ! k \<le> m - t"
  shows "real (Suc k) * (t * t) \<le> sqdev m s"
proof -
  have "\<forall>x\<in>set (take (Suc k) s). t * t \<le> (x - m) * (x - m)"
  proof
    fix x assume "x \<in> set (take (Suc k) s)"
    then obtain i where i: "i < length (take (Suc k) s)" "x = take (Suc k) s ! i"
      by (auto simp: in_set_conv_nth)
    then have ik: "i \<le> k" by simp
    have "x = s ! i" using i by simp
    moreover have "s ! i \<le> s ! k" using assms(1,2) ik by (intro sorted_nth_mono) simp_all
    ultimately have "t \<le> m - x" using assms(4) by linarith
    then have "t * t \<le> (m - x) * (m - x)" using assms(3) by (intro mult_mono) simp_all
    also have "\<dots> = (x - m) * (x - m)" by (simp add: algebra_simps)
    finally show "t * t \<le> (x - m) * (x - m)" .
  qed
  then have "real (length (take (Suc k) s)) * (t * t) \<le> sqdev m (take (Suc k) s)"
    by (rule sqdev_ge_const)
  moreover have "length (take (Suc k) s) = Suc k" using assms(2) by simp
  moreover have "sqdev m s = sqdev m (take (Suc k) s) + sqdev m (drop (Suc k) s)"
    using sqdev_append [of m "take (Suc k) s" "drop (Suc k) s"] by simp
  ultimately show ?thesis using sqdev_nonneg [of m "drop (Suc k) s"] by simp
qed

lemma median_rank:
  assumes "0 < n"
  shows "real n \<le> 2 * real (Suc (nat (max 0 (\<lceil>real n * (1 / 2)\<rceil> - 1))))"
    and "real n \<le> 2 * real (n - nat (max 0 (\<lceil>real n * (1 / 2)\<rceil> - 1)))"
    and "nat (max 0 (\<lceil>real n * (1 / 2)\<rceil> - 1)) < n"
proof -
  define c where "c = \<lceil>real n * (1 / 2)\<rceil>"
  define k where "k = nat (max 0 (c - 1))"
  have "0 < real n * (1 / 2)" using assms by simp
  then have c1: "1 \<le> c" unfolding c_def by (simp add: le_ceiling_iff)
  have ge: "real n / 2 \<le> real_of_int c"
    and lt: "real_of_int c < real n / 2 + 1"
    unfolding c_def using ceiling_correct [of "real n * (1 / 2)"] by simp_all
  have "int k = c - 1" unfolding k_def using c1 by simp
  then have "real_of_int (int k) = real_of_int (c - 1)" by simp
  then have kr: "real k = real_of_int c - 1" by simp
  have "real n / 2 \<le> real n" by simp
  then have "real_of_int c < real_of_int (int n) + 1" using lt by simp
  then have "c < int n + 1" by (metis of_int_less_iff of_int_add of_int_1)
  then have klt: "k < n" using \<open>int k = c - 1\<close> by linarith
  then have d: "real (n - k) = real n - real k" by (simp add: of_nat_diff)
  have 1: "real n \<le> 2 * real (Suc k)" using kr ge by simp linarith?
  have "b = x - 1 \<Longrightarrow> x < a / 2 + 1 \<Longrightarrow> a \<le> 2 * (a - b)" for a b x :: real by argo
  then have 2: "real n \<le> 2 * real (n - k)" unfolding d using kr lt by blast
  show "real n \<le> 2 * real (Suc (nat (max 0 (\<lceil>real n * (1 / 2)\<rceil> - 1))))"
    and "real n \<le> 2 * real (n - nat (max 0 (\<lceil>real n * (1 / 2)\<rceil> - 1)))"
    and "nat (max 0 (\<lceil>real n * (1 / 2)\<rceil> - 1)) < n"
    using 1 2 klt unfolding k_def c_def by blast+
qed

lemma median_near:
  assumes "zs \<noteq> []" "0 < t" "2 * sqdev m zs < real (length zs) * (t * t)"
  shows "\<bar>sort zs ! nat (max 0 (\<lceil>real (length zs) * (1 / 2)\<rceil> - 1)) - m\<bar> < t"
proof (rule ccontr)
  let ?n = "length zs"
  let ?k = "nat (max 0 (\<lceil>real ?n * (1 / 2)\<rceil> - 1))"
  let ?s = "sort zs"
  have n: "0 < ?n" using assms(1) by simp
  note r = median_rank [OF n]
  have k: "?k < length ?s" using r(3) by simp
  have tt: "0 \<le> t * t" by simp
  assume "\<not> \<bar>?s ! ?k - m\<bar> < t"
  then consider "m + t \<le> ?s ! ?k" | "?s ! ?k \<le> m - t" by linarith
  then show False
  proof cases
    case 1
    have "real (length ?s - ?k) * (t * t) \<le> sqdev m ?s"
      using assms(2) 1 k by (intro upper_tail) simp_all
    then have "real (?n - ?k) * (t * t) \<le> sqdev m zs" by (simp add: sqdev_sort)
    moreover have "real ?n * (t * t) \<le> 2 * real (?n - ?k) * (t * t)"
      using r(2) tt by (intro mult_right_mono) simp_all
    ultimately show False using assms(3) by linarith
  next
    case 2
    have "real (Suc ?k) * (t * t) \<le> sqdev m ?s"
      using assms(2) 2 k by (intro lower_tail) simp_all
    then have "real (Suc ?k) * (t * t) \<le> sqdev m zs" by (simp add: sqdev_sort)
    moreover have "real ?n * (t * t) \<le> 2 * real (Suc ?k) * (t * t)"
      using r(1) tt by (intro mult_right_mono) simp_all
    ultimately show False using assms(3) by linarith
  qed
qed

lemma absdev_le_sqdev:
  assumes "0 < c"
  shows "absdev m zs \<le> sqdev m zs / (2 * c) + real (length zs) * c / 2"
proof (induction zs)
  case Nil
  show ?case by (simp add: absdev_def sqdev_def)
next
  case (Cons z zs)
  let ?a = "\<bar>z - m\<bar>"
  have "0 \<le> (?a - c) * (?a - c)" by simp
  then have "2 * c * ?a \<le> ?a * ?a + c * c" by (simp add: algebra_simps)
  then have "?a \<le> (?a * ?a + c * c) / (2 * c)" using assms by (simp add: pos_le_divide_eq mult.commute)
  also have "\<dots> = (z - m) * (z - m) / (2 * c) + c / 2"
    using assms by (simp add: add_divide_distrib)
  finally have step: "?a \<le> (z - m) * (z - m) / (2 * c) + c / 2" .
  have a: "absdev m (z # zs) = ?a + absdev m zs" by (simp add: absdev_def)
  have q: "sqdev m (z # zs) / (2 * c) = (z - m) * (z - m) / (2 * c) + sqdev m zs / (2 * c)"
    by (simp add: sqdev_def add_divide_distrib)
  have l: "real (length (z # zs)) * c / 2 = c / 2 + real (length zs) * c / 2"
    by (simp add: algebra_simps add_divide_distrib)
  show ?case unfolding a q l using step Cons.IH by linarith
qed

lemma absdev_nonneg: "0 \<le> absdev m zs"
  unfolding absdev_def by (rule sum_list_nonneg) auto

lemma absdev_shift: "absdev a zs \<le> absdev m zs + real (length zs) * \<bar>m - a\<bar>"
  by (induction zs) (simp_all add: absdev_def algebra_simps)

lemma sum_list_ge_mean: "real (length zs) * m - absdev m zs \<le> sum_list zs"
  by (induction zs) (simp_all add: absdev_def algebra_simps)

lemma excess_bounds:
  assumes "med \<le> thr"
  shows "0 \<le> excess med thr zs" "excess med thr zs \<le> absdev med zs"
  using assms by (induction zs) (auto simp: excess_def absdev_def)

lemma impact_loop:
  "foldl (\<lambda>(excess, cnt) sample.
            if js_gt sample (Fin thr) then (js_add excess (js_sub sample (Fin med)), Suc cnt)
            else (excess, cnt)) (Fin e, i) (map Fin zs)
     = (Fin (e + excess med thr zs), i + length (filter (\<lambda>z. thr < z) zs))"
  by (induction zs arbitrary: e i) (simp_all add: excess_def js_gt_def js_sub_def add.assoc)

lemma rank_half_le_three_quarters:
  "nat (max 0 (\<lceil>real n * 0.5\<rceil> - 1)) \<le> nat (max 0 (\<lceil>real n * 0.75\<rceil> - 1))"
proof -
  have "real n * 0.5 \<le> real n * 0.75" by simp
  then have "\<lceil>real n * 0.5\<rceil> \<le> \<lceil>real n * 0.75\<rceil>" by (rule ceiling_mono)
  then show ?thesis by simp
qed

lemma impact_Fin:
  assumes "zs \<noteq> []"
  shows "\<exists>thr. sort zs ! nat (max 0 (\<lceil>real (length zs) * 0.5\<rceil> - 1)) \<le> thr
             \<and> fst (getOutlierImpact (map Fin zs))
                 = (if 0 < sum_list zs
                    then Fin (excess (sort zs ! nat (max 0 (\<lceil>real (length zs) * 0.5\<rceil> - 1))) thr zs
                              / sum_list zs)
                    else Fin 0)"
proof -
  let ?n = "length zs"
  let ?k = "nat (max 0 (\<lceil>real ?n * 0.5\<rceil> - 1))"
  let ?j = "nat (max 0 (\<lceil>real ?n * 0.75\<rceil> - 1))"
  let ?med = "sort zs ! ?k"
  let ?q = "sort zs ! ?j"
  let ?thr = "?med + 1.5 * (?q - ?med)"
  have ne: "length (map Fin zs) \<noteq> 0" using assms by simp
  have p50: "percentile (map Fin zs) (Fin 0.5) = Fin ?med"
    by (rule percentile_Fin [OF assms]) simp_all
  have p75: "percentile (map Fin zs) (Fin 0.75) = Fin ?q"
    by (rule percentile_Fin [OF assms]) simp_all
  have j: "?j < length (sort zs)" using nearest_rank_index [of ?n "0.75"] assms by simp
  have "?med \<le> ?q" using rank_half_le_three_quarters [of ?n] j by (intro sorted_nth_mono) simp_all
  then have thr: "?med \<le> ?thr" by simp
  have t: "js_add (Fin ?med) (js_mul (Fin 1.5) (js_sub (Fin ?q) (Fin ?med))) = Fin ?thr"
    unfolding js_sub_def by (simp only: js_neg.simps js_add.simps js_mul.simps) simp
  have total: "foldl js_add (Fin 0) (map Fin zs) = Fin (sum_list zs)"
    using foldl_js_add_Fin [of 0 zs] by simp
  have "fst (getOutlierImpact (map Fin zs))
          = (if 0 < sum_list zs then Fin (excess ?med ?thr zs / sum_list zs) else Fin 0)"
    unfolding getOutlierImpact_def Let_def p50 p75 t impact_loop total
    using ne by (auto simp: js_gt_def)
  then show ?thesis using thr by blast
qed

lemma mean_scale: "mean (map (\<lambda>r. r / c) ys) = mean ys / c"
proof -
  have "sum_list (map (\<lambda>r. r / c) ys) = sum_list ys / c"
    by (induction ys) (simp_all add: add_divide_distrib)
  then show ?thesis by (simp add: mean_def)
qed

lemma sqdev_scale: "sqdev (m / c) (map (\<lambda>r. r / c) ys) = sqdev m ys / (c * c)"
proof (induction ys)
  case Nil
  show ?case by (simp add: sqdev_def)
next
  case (Cons y ys)
  have "(y / c - m / c) * (y / c - m / c) = (y - m) * (y - m) / (c * c)"
    by (simp flip: diff_divide_distrib)
  then show ?case using Cons by (simp add: sqdev_def add_divide_distrib)
qed

lemma window_stable:
  assumes "zs \<noteq> []" "0 < \<mu>"
    and "2 * sqdev \<mu> zs < real (length zs) * (\<mu> / 50 * (\<mu> / 50))"
    and "absdev \<mu> zs < 17 * (real (length zs) * \<mu>) / 1200"
  shows "\<exists>med r. percentile (map Fin zs) (Fin 0.5) = Fin med \<and> \<bar>med - \<mu>\<bar> < \<mu> / 50
           \<and> fst (getOutlierImpact (map Fin zs)) = Fin r \<and> 0 \<le> r \<and> r < 1 / 20"
proof -
  let ?n = "length zs"
  let ?k = "nat (max 0 (\<lceil>real ?n * 0.5\<rceil> - 1))"
  let ?med = "sort zs ! ?k"
  define X where "X = real ?n * \<mu>"
  have n: "0 < real ?n" using assms(1) by simp
  have X: "0 < X" unfolding X_def using n assms(2) by simp
  have p50: "percentile (map Fin zs) (Fin 0.5) = Fin ?med"
    by (rule percentile_Fin [OF assms(1)]) simp_all
  have k: "?k = nat (max 0 (\<lceil>real ?n * (1 / 2)\<rceil> - 1))" by simp
  have t: "0 < \<mu> / 50" using assms(2) by simp
  have med: "\<bar>?med - \<mu>\<bar> < \<mu> / 50"
    unfolding k using assms(1) t assms(3) by (rule median_near)
  obtain thr where thr: "?med \<le> thr"
    and imp: "fst (getOutlierImpact (map Fin zs))
                = (if 0 < sum_list zs then Fin (excess ?med thr zs / sum_list zs) else Fin 0)"
    using impact_Fin [OF assms(1)] by blast
  have a: "absdev \<mu> zs < 17 * X / 1200" using assms(4) by (simp add: X_def)
  have "\<bar>\<mu> - ?med\<bar> \<le> \<mu> / 50" using med by linarith
  then have "real ?n * \<bar>\<mu> - ?med\<bar> \<le> real ?n * (\<mu> / 50)"
    by (intro mult_left_mono) simp_all
  then have sh: "real ?n * \<bar>\<mu> - ?med\<bar> \<le> X / 50" by (simp add: X_def)
  have e0: "0 \<le> excess ?med thr zs" using thr by (rule excess_bounds(1))
  have "excess ?med thr zs \<le> absdev ?med zs" using thr by (rule excess_bounds(2))
  also have "\<dots> \<le> absdev \<mu> zs + real ?n * \<bar>\<mu> - ?med\<bar>" by (rule absdev_shift)
  finally have e1: "excess ?med thr zs < 41 * X / 1200" using a sh by linarith
  have "real ?n * \<mu> - absdev \<mu> zs \<le> sum_list zs" by (rule sum_list_ge_mean)
  then have s: "1183 * X / 1200 < sum_list zs" using a by (simp add: X_def)
  then have spos: "0 < sum_list zs" using X by linarith
  have "20 * excess ?med thr zs < sum_list zs" using e1 s X by linarith
  then have r1: "excess ?med thr zs / sum_list zs < 1 / 20" using spos by (simp add: pos_divide_less_eq)
  have r0: "0 \<le> excess ?med thr zs / sum_list zs" using e0 spos by simp
  have "fst (getOutlierImpact (map Fin zs)) = Fin (excess ?med thr zs / sum_list zs)"
    using imp spos by simp
  then show ?thesis using p50 med r0 r1 by blast
qed

lemma rsd_bound:
  assumes "0 < mean ys" "rsd ys < 1 / 100" "1 < length ys"
  shows "10000 * sqdev (mean ys) ys < (real (length ys) - 1) * (mean ys * mean ys)"
proof -
  define V where "V = sqdev (mean ys) ys / (real (length ys) - 1)"
  define a where "a = mean ys / 100"
  have n: "0 < real (length ys) - 1" using assms(3) by simp
  have V0: "0 \<le> V" unfolding V_def using sqdev_nonneg [of "mean ys" ys] n by simp
  have "sqrt V / mean ys < 1 / 100" using assms(2) by (simp add: rsd_def V_def)
  then have "sqrt V < a" unfolding a_def using assms(1) by (simp add: pos_divide_less_eq)
  then have "sqrt V * sqrt V < a * a" using V0 by (intro mult_strict_mono') simp_all
  moreover have "sqrt V * sqrt V = \<bar>V\<bar>" by (rule real_sqrt_mult_self)
  ultimately have "V < a * a" using V0 by simp
  then have "sqdev (mean ys) ys < a * a * (real (length ys) - 1)"
    unfolding V_def using n by (simp add: pos_divide_less_eq)
  then show ?thesis unfolding a_def by (simp add: algebra_simps)
qed

lemma window_conditions:
  assumes "0 < \<mu>" "0 < w" "length zs = w"
    and "sqdev \<mu> zs \<le> S" "10000 * S < (real (2 * w) - 1) * (\<mu> * \<mu>)"
  shows "2 * sqdev \<mu> zs < real (length zs) * (\<mu> / 50 * (\<mu> / 50))"
    and "absdev \<mu> zs < 17 * (real (length zs) * \<mu>) / 1200"
proof -
  define A where "A = \<mu> * \<mu>"
  define B where "B = real w * A"
  define X where "X = real w * \<mu>"
  define D where "D = sqdev \<mu> zs"
  have A: "0 < A" unfolding A_def using assms(1) by simp
  have X: "0 < X" unfolding X_def using assms(1,2) by simp
  have e: "(real (2 * w) - 1) * (\<mu> * \<mu>) = 2 * B - A" by (simp add: A_def B_def algebra_simps)
  have D: "10000 * D < 2 * B - A" using assms(4,5) unfolding e D_def by linarith
  have "real (length zs) * (\<mu> / 50 * (\<mu> / 50)) = B / 2500" by (simp add: assms(3) A_def B_def)
  then show "2 * sqdev \<mu> zs < real (length zs) * (\<mu> / 50 * (\<mu> / 50))"
    using D A unfolding D_def by linarith
  have c: "0 < 3 * \<mu> / 200" using assms(1) by simp
  have le: "absdev \<mu> zs \<le> D / (2 * (3 * \<mu> / 200)) + real (length zs) * (3 * \<mu> / 200) / 2"
    unfolding D_def using c by (rule absdev_le_sqdev)
  have "(2 * X - \<mu>) / 300 * (2 * (3 * \<mu> / 200)) = (2 * B - A) / 10000"
    by (simp add: X_def A_def B_def field_simps)
  then have "D < (2 * X - \<mu>) / 300 * (2 * (3 * \<mu> / 200))" using D by argo
  moreover have c2: "0 < 2 * (3 * \<mu> / 200)" using c by simp
  ultimately have q: "D / (2 * (3 * \<mu> / 200)) < (2 * X - \<mu>) / 300"
    by (simp only: pos_divide_less_eq [OF c2])
  have l: "real (length zs) * (3 * \<mu> / 200) / 2 = 3 * X / 400" by (simp add: assms(3) X_def)
  have "17 * (real (length zs) * \<mu>) / 1200 = 17 * X / 1200" by (simp add: assms(3) X_def)
  then show "absdev \<mu> zs < 17 * (real (length zs) * \<mu>) / 1200"
    using le q l assms(1) by argo
qed

lemma getWindowSize_pos: "0 < getWindowSize samples"
  by (simp add: getWindowSize_def windowSize_def Let_def)

lemma stable_windows:
  assumes "percentile (map Fin Rm) (Fin 0.5) = Fin mR" "percentile (map Fin Pm) (Fin 0.5) = Fin mP"
    and "\<bar>mR - \<mu>\<bar> < \<mu> / 50" "\<bar>mP - \<mu>\<bar> < \<mu> / 50" "0 < \<mu>"
    and "fst (getOutlierImpact (map Fin Rm)) = Fin rR" "fst (getOutlierImpact (map Fin Pm)) = Fin rP"
    and "0 \<le> rR" "rR < 1 / 20" "0 \<le> rP" "rP < 1 / 20"
    and "map (\<lambda>s. js_div s msToNs) (slice_last w samples) = map Fin Rm"
    and "map (\<lambda>s. js_div s msToNs) (slice_previous w samples) = map Fin Pm"
  shows "medianStable (getStability samples w) \<and> impactStable (getStability samples w)"
proof -
  have mP: "0 < mP" using assms(4,5) by linarith
  have "20 * \<bar>mR - mP\<bar> < mP" using assms(3,4,5) by argo
  then have d: "\<bar>mR - mP\<bar> / mP < 1 / 20" using mP by (simp add: pos_divide_less_eq)
  have md: "js_div (js_abs (js_sub (Fin mR) (Fin mP))) (Fin mP) = Fin (\<bar>mR - mP\<bar> / mP)"
    using mP by (simp add: js_sub_def)
  have i: "\<bar>rR - rP\<bar> < 1 / 20" using assms(8,9,10,11) by argo
  have id: "js_abs (js_sub (Fin rR) (Fin rP)) = Fin \<bar>rR - rP\<bar>" by (simp add: js_sub_def)
  show ?thesis
    unfolding getStability_def Let_def assms(12,13) assms(1,2) assms(6,7) md id stability_def
    using d i by simp
qed

lemma stable_samples_converge:
  assumes "2 * getWindowSize (map Fin xs) \<le> length xs"
    and "0 < mean (slice_last (2 * getWindowSize (map Fin xs)) xs)"
    and "rsd (slice_last (2 * getWindowSize (map Fin xs)) xs) < 1 / 100"
  shows "checkConvergence toFixed (map Fin xs)
           = \<lparr> converged = True, conv_confidence = Fin 100, reason = ''Stable performance pattern'' \<rparr>"
proof -
  define w where "w = getWindowSize (map Fin xs)"
  define n where "n = length xs"
  define ys where "ys = slice_last (2 * w) xs"
  define P where "P = take w ys"
  define R where "R = drop w ys"
  define \<mu> where "\<mu> = mean ys / 1000000"
  define Pm where "Pm = map (\<lambda>r. r / 1000000) P"
  define Rm where "Rm = map (\<lambda>r. r / 1000000) R"
  define S where "S = sqdev \<mu> (map (\<lambda>r. r / 1000000) ys)"
  have w: "0 < w" unfolding w_def by (rule getWindowSize_pos)
  have nw: "2 * w \<le> n" using assms(1) by (simp add: w_def n_def)
  have ly: "length ys = 2 * w" using nw by (simp add: ys_def slice_last_def n_def)
  have lP: "length P = w" and lR: "length R = w" using ly by (simp_all add: P_def R_def)
  have yPR: "ys = P @ R" by (simp add: P_def R_def)
  have Rx: "R = drop (n - w) xs"
  proof -
    have "w + (n - 2 * w) = n - w" using nw by simp
    then show ?thesis by (simp add: R_def ys_def slice_last_def n_def)
  qed
  have Px: "P = drop (n - 2 * w) (take (n - w) xs)"
  proof -
    have "w + (n - 2 * w) = n - w" using nw by simp
    then show ?thesis by (simp add: P_def ys_def slice_last_def n_def take_drop)
  qed
  have recent: "map (\<lambda>s. js_div s msToNs) (slice_last w (map Fin xs)) = map Fin Rm"
    unfolding Rm_def Rx slice_last_def by (simp add: n_def drop_map msToNs_def)
  have previous: "map (\<lambda>s. js_div s msToNs) (slice_previous w (map Fin xs)) = map Fin Pm"
    unfolding Pm_def Px slice_previous_def by (simp add: n_def drop_map take_map msToNs_def)
  have my: "0 < mean ys" using assms(2) by (simp add: ys_def w_def)
  have ry: "rsd ys < 1 / 100" using assms(3) by (simp add: ys_def w_def)
  have \<mu>: "0 < \<mu>" unfolding \<mu>_def using my by simp
  have "1 < length ys" using ly w by simp
  then have b: "10000 * sqdev (mean ys) ys < (real (length ys) - 1) * (mean ys * mean ys)"
    using my ry by (intro rsd_bound)
  have "S = sqdev (mean ys) ys / (1000000 * 1000000)"
    unfolding S_def \<mu>_def by (rule sqdev_scale)
  then have S: "10000 * S < (real (2 * w) - 1) * (\<mu> * \<mu>)"
    using b by (simp add: \<mu>_def ly)
  have split: "S = sqdev \<mu> Pm + sqdev \<mu> Rm"
    unfolding S_def Pm_def Rm_def yPR by (simp add: sqdev_append)
  have SP: "sqdev \<mu> Pm \<le> S" using split sqdev_nonneg [of \<mu> Rm] by simp
  have SR: "sqdev \<mu> Rm \<le> S" using split sqdev_nonneg [of \<mu> Pm] by simp
  have lPm: "length Pm = w" and lRm: "length Rm = w" using lP lR by (simp_all add: Pm_def Rm_def)
  have neP: "Pm \<noteq> []" and neR: "Rm \<noteq> []" using lPm lRm w by auto
  obtain mP rP where P: "percentile (map Fin Pm) (Fin 0.5) = Fin mP" "\<bar>mP - \<mu>\<bar> < \<mu> / 50"
      "fst (getOutlierImpact (map Fin Pm)) = Fin rP" "0 \<le> rP" "rP < 1 / 20"
    using window_stable [OF neP \<mu> window_conditions [OF \<mu> w lPm SP S]] by blast
  obtain mR rR where R: "percentile (map Fin Rm) (Fin 0.5) = Fin mR" "\<bar>mR - \<mu>\<bar> < \<mu> / 50"
      "fst (getOutlierImpact (map Fin Rm)) = Fin rR" "0 \<le> rR" "rR < 1 / 20"
    using window_stable [OF neR \<mu> window_conditions [OF \<mu> w lRm SR S]] by blast
  have st: "medianStable (getStability (map Fin xs) w) \<and> impactStable (getStability (map Fin xs) w)"
    using R(1) P(1) R(2) P(2) \<mu> R(3) P(3) R(4,5) P(4,5) recent previous by (rule stable_windows)
  have "2 * getWindowSize (map Fin xs) \<le> length (map Fin xs)" using assms(1) by simp
  then have "checkConvergence toFixed (map Fin xs)
               = buildConvergence toFixed (getStability (map Fin xs) w)"
    unfolding w_def by (rule checkConvergence_enough)
  then show ?thesis using st by (simp add: buildConvergence_def)
qed

text \<open>
  With fewer than \<open>2W\<close> samples the check returns the progress result.
\<close>

lemma checkConvergence_progress:
  assumes "length samples < 2 * getWindowSize samples"
  shows "checkConvergence toFixed samples
           = \<lparr> converged = False,
               conv_confidence =
                 Fin (real (length samples) / real (2 * getWindowSize samples) * 100),
               reason = ''Collecting samples: '' @ show_nat (length samples) @ ''/''
                          @ show_nat (2 * getWindowSize samples) \<rparr>"
proof -
  have "0 < getWindowSize samples" by (simp add: getWindowSize_def windowSize_def Let_def)
  then show ?thesis
    using assms by (simp add: checkConvergence_def buildProgressResult_def Let_def mult.commute)
qed

text \<open>A list of 400 samples of 0 ns: the windows, their medians and the stability metrics.\<close>


lemma zero_ms: "map (\<lambda>s. js_div s msToNs) (replicate k (Fin 0)) = replicate k (Fin 0)"
  by (simp add: msToNs_def)

lemma zero_slices:
  "slice_last 20 (replicate 400 (Fin 0)) = replicate 20 (Fin 0)"
  "slice_last 200 (replicate 400 (Fin 0)) = replicate 200 (Fin 0)"
  "slice_previous 200 (replicate 400 (Fin 0)) = replicate 200 (Fin 0)"
  by (simp_all add: slice_last_def slice_previous_def)

lemma zero_median: "0 < k \<Longrightarrow> percentile (replicate k (Fin 0)) (Fin (1 / 2)) = Fin 0"
  by (rule percentile_replicate_Fin) simp_all

lemma zero_window: "getWindowSize (replicate 400 (Fin 0)) = 200"
proof -
  have "\<not> length (replicate 400 (Fin 0)) < 20" by simp
  then show ?thesis
    unfolding getWindowSize_def Let_def zero_slices zero_ms by (simp add: zero_median)
qed

lemma zero_stability:
  "getStability (replicate 400 (Fin 0)) 200
     = \<lparr> medianDrift = NaN, impactDrift = Fin 0, medianStable = False, impactStable = True \<rparr>"
  unfolding getStability_def Let_def zero_slices zero_ms
  by (simp add: zero_median uniform_impact js_sub_def stability_def)

lemma foldl_add64_zero: "foldl add64 (Fin 0) (replicate k (Fin 0)) = Fin 0"
  by (induction k) (simp_all add: add64_def fl64_0)

lemma zero_cv: "coefficientOfVariation64 (replicate 400 (Fin 0)) = Fin 0"
  by (simp add: coefficientOfVariation64_def average64_def foldl_add64_zero div64_def fl64_0 Let_def)

section \<open>C5: convergence of stable samples\<close>

text \<open>
  C5. Samples are durations, so their mean is positive or they are all 0. For a positive
  mean the claim holds: \<open>stable_samples_converge\<close> above, and
  \<open>checkConvergence_progress\<close> for the progress result. It fails for 400 samples of
  0 ns. Their window size is 200, so the list holds \<open>2W\<close> samples, and they are as stable
  as samples can be: their relative standard deviation is 0. The claim gives
  \<open>converged = true\<close> with confidence 100. The code divides the difference of the two
  window medians by the earlier median without a guard for 0: the median drift is
  \<open>0 / 0\<close>, NaN, which is not below the threshold, and the check returns
  \<open>converged = false\<close> with the confidence NaN.
\<close>

theorem zero_samples_not_converged:
  "coefficientOfVariation64 (replicate 400 (Fin 0)) = Fin 0
   \<and> 2 * getWindowSize (replicate 400 (Fin 0)) \<le> length (replicate 400 (Fin 0))
   \<and> medianDrift (getStability (replicate 400 (Fin 0)) (getWindowSize (replicate 400 (Fin 0)))) = NaN
   \<and> checkConvergence toFixed (replicate 400 (Fin 0))
       = \<lparr> converged = False, conv_confidence = NaN,
           reason = ''Outlier impact changing: '' @ toFixed (Fin 0) 1 @ ''%'' \<rparr>"
proof -
  have w: "2 * getWindowSize (replicate 400 (Fin 0)) \<le> length (replicate 400 (Fin 0))"
    unfolding zero_window by simp
  have "checkConvergence toFixed (replicate 400 (Fin 0))
       = \<lparr> converged = False, conv_confidence = NaN,
           reason = ''Outlier impact changing: '' @ toFixed (Fin 0) 1 @ ''%'' \<rparr>"
    unfolding checkConvergence_enough [OF w] zero_window zero_stability
    by (simp add: buildConvergence_def Let_def js_gt_def js_sub_def stability_def)
  then show ?thesis using w zero_cv by (simp add: zero_window zero_stability)
qed


section \<open>C7: which lines yield a GC event\<close>

lemma match_at_nonempty: "match_at s = Some (key, val) \<Longrightarrow> key \<noteq> [] \<and> val \<noteq> []"
  by (auto simp: match_at_def Let_def split: if_splits list.splits)

lemma matchAll_values: "(key, val) \<in> set (matchAll s) \<Longrightarrow> val \<noteq> []"
proof (induction s rule: matchAll.induct)
  case (1 s)
  show ?case
  proof (cases "s = []")
    case True
    then show ?thesis using "1.prems" by (subst (asm) matchAll.simps) simp
  next
    case False
    show ?thesis
    proof (cases "match_at s")
      case None
      then have "matchAll s = matchAll (drop 1 s)"
        using False by (subst matchAll.simps) simp
      then show ?thesis using "1.IH"(1) [OF False None] "1.prems" by simp
    next
      case (Some kv)
      obtain k v where kv: "kv = (k, v)" by (cases kv)
      have m: "match_at s = Some (k, v)" using Some kv by simp
      have "matchAll s = (k, v) # matchAll (drop (length k + 1 + length v) s)"
        using False m by (subst matchAll.simps) simp
      then consider "(key, val) = (k, v)"
        | "(key, val) \<in> set (matchAll (drop (length k + 1 + length v) s))"
        using "1.prems" by auto
      then show ?thesis
      proof cases
        case 1
        then show ?thesis using match_at_nonempty [OF m] by simp
      next
        case 2
        then show ?thesis using "1.IH"(2) [OF False m refl] by simp
      qed
    qed
  qed
qed

lemma fields_value_nonempty: "parseNvpFields line key = Some val \<Longrightarrow> val \<noteq> []"
proof -
  assume "parseNvpFields line key = Some val"
  then have "(key, val) \<in> set (rev (matchAll line))"
    unfolding parseNvpFields_def by (rule map_of_SomeD)
  then show ?thesis using matchAll_values [of key val line] by simp
qed

text \<open>
  C7 (as amended). \<open>parseGcLine\<close> yields no event exactly when the line does not contain
  \<open>pause=\<close>, or has no field \<open>gc=value\<close>, or the value of its \<open>pause\<close> field (\<open>0\<close>
  when there is none) does not begin with a number, so that \<open>parseFloat\<close> gives NaN.
  Every other line yields one event, whose type is the one \<open>parseGcType\<close> assigns to the
  value of \<open>gc\<close>; a value that is not a known code gives the type \<open>unknown\<close>.
\<close>

theorem parseGcLine_event:
  "(parseGcLine line = None \<longleftrightarrow>
      \<not> str_includes line ''pause='' \<or> parseNvpFields line ''gc'' = None
      \<or> parseFloat (or_zero (parseNvpFields line ''pause'')) = NaN)
   \<and> (str_includes line ''pause='' \<and> parseNvpFields line ''gc'' = Some gc
        \<and> parseFloat (or_zero (parseNvpFields line ''pause'')) \<noteq> NaN \<longrightarrow>
        (\<exists>e. parseGcLine line = Some e \<and> ev_type e = parseGcType gc
             \<and> ev_pauseMs e = parseFloat (or_zero (parseNvpFields line ''pause''))))
   \<and> (gc \<notin> {''s'', ''scavenge'', ''mc'', ''ms'', ''mark-compact'', ''mmc'', ''minor-mc'', ''minor-ms''}
        \<longrightarrow> parseGcType gc = Unknown)"
proof -
  have ne: "g \<noteq> []" if "parseNvpFields line ''gc'' = Some g" for g
    using fields_value_nonempty [OF that] .
  have none: "parseGcLine line = None \<longleftrightarrow>
      \<not> str_includes line ''pause='' \<or> parseNvpFields line ''gc'' = None
      \<or> parseFloat (or_zero (parseNvpFields line ''pause'')) = NaN"
    using ne by (auto simp: parseGcLine_def Let_def split: option.splits)
  have some: "\<exists>e. parseGcLine line = Some e \<and> ev_type e = parseGcType gc
             \<and> ev_pauseMs e = parseFloat (or_zero (parseNvpFields line ''pause''))"
    if "str_includes line ''pause=''" "parseNvpFields line ''gc'' = Some gc"
      "parseFloat (or_zero (parseNvpFields line ''pause'')) \<noteq> NaN"
    using that ne [OF that(2)] by (simp add: parseGcLine_def Let_def)
  have unknown: "parseGcType gc = Unknown"
    if "gc \<notin> {''s'', ''scavenge'', ''mc'', ''ms'', ''mark-compact'', ''mmc'', ''minor-mc'', ''minor-ms''}"
    using that by (simp add: parseGcType_def)
  show ?thesis using none some unknown by blast
qed

lemma fields_short_line:
  "matchAll ''gc=s pause=1.0'' = [(''gc'', ''s''), (''pause'', ''1.0'')]"
  by (simp add: match_at_def is_word_def is_value_char_def is_space_def Let_def)

lemma fields_unknown_line:
  "matchAll ''pause=1 gc=xyz'' = [(''pause'', ''1''), (''gc'', ''xyz'')]"
  by (simp add: match_at_def is_word_def is_value_char_def is_space_def Let_def)

lemmas gc_eval =
  parseGcLine_def parseNvpFields_def match_at_def is_word_def is_value_char_def is_space_def
  starts_with_def parseFloat_def parseInt_def split_sign_def is_digit_def digits_val_def
  digit_val_def parse_exponent_def or_zero_def js_or_def js_falsy_def js_gt_def js_sub_def
  parseGcType_def Let_def

theorem parseGcLine_event_witness:
  "str_includes ''gc=s pause=1.0'' ''pause='' \<and> parseNvpFields ''gc=s pause=1.0'' ''gc'' = Some ''s''
   \<and> parseFloat (or_zero (parseNvpFields ''gc=s pause=1.0'' ''pause'')) \<noteq> NaN
   \<and> (\<exists>e. parseGcLine ''gc=s pause=1.0'' = Some e \<and> ev_type e = Scavenge \<and> ev_pauseMs e = Fin 1)
   \<and> \<not> str_includes ''some random stderr output'' ''pause=''
   \<and> parseGcLine ''some random stderr output'' = None
   \<and> ''xyz'' \<notin> {''s'', ''scavenge'', ''mc'', ''ms'', ''mark-compact'', ''mmc'', ''minor-mc'', ''minor-ms''}
   \<and> parseGcType ''xyz'' = Unknown"
proof -
  have h: "str_includes ''gc=s pause=1.0'' ''pause=''"
    "parseNvpFields ''gc=s pause=1.0'' ''gc'' = Some ''s''"
    "parseFloat (or_zero (parseNvpFields ''gc=s pause=1.0'' ''pause'')) = Fin 1"
    "parseGcType ''s'' = Scavenge"
    "\<not> str_includes ''some random stderr output'' ''pause=''"
    by (simp_all add: gc_eval)
  show ?thesis
    using parseGcLine_event [of "''gc=s pause=1.0''" "''s''"]
      parseGcLine_event [of "''some random stderr output''" "''xyz''"] h
    by (simp del: str_includes.simps)
qed

text \<open>
  C7 as stated fails for a line whose \<open>gc\<close> value is not a recognised code: the line
  \<open>pause=1 gc=xyz\<close> yields an event, of type \<open>unknown\<close>.
\<close>

theorem unknown_gc_counterexample:
  "parseGcType ''xyz'' = Unknown
   \<and> parseGcLine ''pause=1 gc=xyz''
       = Some \<lparr> ev_type = Unknown, ev_pauseMs = Fin 1, ev_collected = Fin 0,
                 ev_allocated = Some (Fin 0), ev_promoted = Some (Fin 0), ev_survived = Some (Fin 0) \<rparr>"
  by (simp add: gc_eval)


text \<open>The line of the V8 trace that the tests of the repository parse.\<close>

lemma v8_line:
  "parseGcLine ''[71753:0x83280c000:0] 9 ms: pause=0.5 mutator=0.1 gc=s allocated=293224 promoted=653480 new_space_survived=290176 start_object_size=4392688 end_object_size=4287840''
     = Some \<lparr> ev_type = Scavenge, ev_pauseMs = Fin (1 / 2), ev_collected = Fin 104848,
                ev_allocated = Some (Fin 293224), ev_promoted = Some (Fin 653480),
                ev_survived = Some (Fin 290176) \<rparr>"
  by (simp add: gc_eval)

end
